theory Spec2Isabelle
  imports Main
begin

section \<open>JavaScript strings\<close>

text \<open>
  A JavaScript string is a sequence of UTF-16 code units, and \<open>length\<close>, \<open>substring\<close>
  and \<open>lastIndexOf\<close> count code units. A string is therefore a list of code units, each
  a natural number; \<open>js\<close> turns an ASCII literal into such a list.
\<close>

type_synonym jsstring = "nat list"

definition js :: "string \<Rightarrow> jsstring" where
  "js s = map of_char s"

definition space :: nat where "space = 32"
definition newline :: nat where "newline = 10"
definition ellipsis :: nat where "ellipsis = 8230"

text \<open>Truthiness of an optional string field: \<open>undefined\<close>, \<open>null\<close> and \<open>""\<close> are falsy.\<close>

fun truthy :: "jsstring option \<Rightarrow> bool" where
  "truthy None = False"
| "truthy (Some s) = (s \<noteq> [])"

text \<open>\<open>a || b\<close> on optional strings.\<close>

definition js_or :: "jsstring option \<Rightarrow> jsstring option \<Rightarrow> jsstring option" where
  "js_or a b = (if truthy a then a else b)"

text \<open>\<open>a || "literal"\<close>: the chain ends in a string.\<close>

definition js_or_str :: "jsstring option \<Rightarrow> jsstring \<Rightarrow> jsstring" where
  "js_or_str a d = (if truthy a then the a else d)"

definition startsWith :: "jsstring \<Rightarrow> jsstring \<Rightarrow> bool" where
  "startsWith s p = (take (length p) s = p)"

text \<open>The characters matched by \<open>\s\<close> and stripped by \<open>trim\<close>.\<close>

definition is_ws :: "nat \<Rightarrow> bool" where
  "is_ws c = (c \<in> {9, 10, 11, 12, 13, 32, 160, 5760, 8232, 8233, 8239, 8287, 12288, 65279}
              \<or> (8192 \<le> c \<and> c \<le> 8202))"

definition trim :: "jsstring \<Rightarrow> jsstring" where
  "trim s = rev (dropWhile is_ws (rev (dropWhile is_ws s)))"

text \<open>\<open>s.replace(/\n/g, " ")\<close>\<close>

definition replaceNewlines :: "jsstring \<Rightarrow> jsstring" where
  "replaceNewlines s = map (\<lambda>c. if c = newline then space else c) s"

text \<open>\<open>s.replace(/\s+/g, " ")\<close>: every maximal run of whitespace becomes one space.\<close>

function collapseSpaces :: "jsstring \<Rightarrow> jsstring" where
  "collapseSpaces [] = []"
| "collapseSpaces (c # cs) =
     (if is_ws c then space # collapseSpaces (dropWhile is_ws cs)
      else c # collapseSpaces cs)"
  by pat_completeness auto
termination
  by (relation "measure length") (auto simp: length_dropWhile_le less_Suc_eq_le)

text \<open>\<open>s.split(/[.!?\n]/)[0]\<close>: the text before the first terminator.\<close>

definition is_terminator :: "nat \<Rightarrow> bool" where
  "is_terminator c = (c \<in> {46, 33, 63, 10})"

definition beforeTerminator :: "jsstring \<Rightarrow> jsstring" where
  "beforeTerminator s = takeWhile (\<lambda>c. \<not> is_terminator c) s"

text \<open>\<open>s.lastIndexOf(c)\<close>: the greatest index holding \<open>c\<close>, or \<open>-1\<close>.\<close>

definition lastIndexOf :: "jsstring \<Rightarrow> nat \<Rightarrow> int" where
  "lastIndexOf s c =
     (case filter (\<lambda>i. s ! i = c) (rev [0..<length s]) of
        [] \<Rightarrow> - 1
      | i # _ \<Rightarrow> int i)"

section \<open>Loosely typed fields\<close>

text \<open>
  A field of the log on which the code calls a string method. It is missing (absent, or
  \<open>null\<close>, \<open>0\<close> or \<open>false\<close>, which \<open>||\<close> passes over like an absent field), a
  string, or a truthy value that is no string, on which the method call throws a
  \<open>TypeError\<close>.
\<close>

datatype strField = Missing | Text jsstring | NotText

fun truthyField :: "strField \<Rightarrow> bool" where
  "truthyField Missing = False"
| "truthyField (Text s) = (s \<noteq> [])"
| "truthyField NotText = True"

fun textOf :: "strField \<Rightarrow> jsstring option" where
  "textOf Missing = None"
| "textOf (Text s) = Some s"
| "textOf NotText = None"

fun fieldOf :: "jsstring option \<Rightarrow> strField" where
  "fieldOf None = Missing"
| "fieldOf (Some s) = Text s"

text \<open>\<open>a || b\<close> on such fields.\<close>

definition orField :: "strField \<Rightarrow> strField \<Rightarrow> strField" where
  "orField a b = (if truthyField a then a else b)"

section \<open>JavaScript numbers\<close>

text \<open>
  The counters \<open>tokens\<close> and \<open>toolCalls\<close> are JavaScript numbers, that is IEEE doubles.
  They hold integers here, and \<open>+\<close> on them gives the double nearest to the exact sum,
  the one with the even significand on a tie. An integer below \<open>2^53\<close> is its own
  double; for a larger one \<open>ulpExp\<close> is the number of low bits that a significand of 53
  bits cannot hold. Magnitudes stay below \<open>2^1024\<close>, where doubles are finite.
\<close>

function ulpExp :: "nat \<Rightarrow> nat" where
  "ulpExp n = (if n < 2 ^ 53 then 0 else Suc (ulpExp (n div 2)))"
  by pat_completeness auto
termination
  by (relation "measure id") auto

declare ulpExp.simps [simp del]

definition roundNat :: "nat \<Rightarrow> nat" where
  "roundNat n =
     (let k = ulpExp n; q = n div 2 ^ k; r = n mod 2 ^ k
      in if 2 * r < 2 ^ k \<or> (2 * r = 2 ^ k \<and> even q) then q * 2 ^ k else (q + 1) * 2 ^ k)"

definition roundDouble :: "int \<Rightarrow> int" where
  "roundDouble i = (if 0 \<le> i then int (roundNat (nat i)) else - int (roundNat (nat (- i))))"

text \<open>\<open>x + y\<close> on numbers.\<close>

definition jsAdd :: "int \<Rightarrow> int \<Rightarrow> int" where
  "jsAdd x y = roundDouble (x + y)"

section \<open>Task summarizer\<close>

text \<open>The local \<open>first\<close> of \<open>summarizeTask\<close>: the trimmed first sentence or clause.\<close>

definition firstClause :: "jsstring \<Rightarrow> jsstring" where
  "firstClause text =
     (let cleaned = trim (collapseSpaces (replaceNewlines text))
      in trim (beforeTerminator cleaned))"

definition summarizeTask :: "jsstring \<Rightarrow> jsstring" where
  "summarizeTask text =
     (let first = firstClause text in
      if length first \<le> 32 then first
      else
        let truncated = take 40 first;
            lastSpace = lastIndexOf truncated space
        in (if lastSpace > 15 then take (nat lastSpace) truncated else truncated) @ [ellipsis])"

text \<open>A cut of \<open>s\<close> after \<open>n\<close> characters falls inside a word when the characters on
  both sides of the cut are not whitespace.\<close>

definition cutsInsideWord :: "jsstring \<Rightarrow> nat \<Rightarrow> bool" where
  "cutsInsideWord s n = (0 < n \<and> n < length s \<and> \<not> is_ws (s ! (n - 1)) \<and> \<not> is_ws (s ! n))"

definition longWord :: jsstring where
  "longWord = js ''Implementation_of_the_authentication_middleware_layer''"

section \<open>Data model\<close>

text \<open>The status strings the server assigns to an agent.\<close>

datatype status =
  Starting | Idle | Reading | Writing | Tool_call | Delegating | Thinking | Blocked | Done

text \<open>
  An agent record of \<open>knownAgents\<close>. The fields \<open>_statusSetAt\<close>, \<open>activity\<close>,
  \<open>_filePaths\<close>, \<open>_taskLabel\<close> and the team fields are absent on a new record:
  \<open>None\<close>, and the empty list for \<open>_filePaths\<close>, which the code creates empty on first use.
  \<open>lastFile\<close> takes whatever value the event's file path has, a string or not.
\<close>

record agent =
  aid :: jsstring
  shortId :: jsstring
  label :: jsstring
  role :: jsstring
  color :: jsstring
  status :: status
  lastTool :: "jsstring option"
  lastFile :: strField
  lastActive :: int
  tokens :: int
  toolCalls :: nat
  firstSeen :: int
  cwd :: "jsstring option"
  statusSetAt :: "int option"
  activity :: "jsstring option"
  filePaths :: "jsstring list"
  taskLabel :: "jsstring option"
  teamName :: "jsstring option"
  teamAgentId :: "jsstring option"
  teamMemberName :: "jsstring option"
  agentType :: "jsstring option"
  spawnPrompt :: "jsstring option"

text \<open>
  An event whose fields hold, where they are present, values of the type the code reads
  them at: strings, and an integer for \<open>tokens\<close>. On such an event \<open>processEvent\<close> runs
  to its end. What the code does with a field that holds another kind of value is the
  subject of the section on events as the log delivers them, further down.
  \<open>tr_filenames_json\<close> is \<open>JSON.stringify(resp.filenames)\<close> when the response has a
  \<open>filenames\<close> field.
\<close>

record tool_input =
  ti_file_path :: "jsstring option"
  ti_command :: "jsstring option"
  ti_path :: "jsstring option"
  ti_description :: "jsstring option"
  ti_prompt :: "jsstring option"
  ti_task :: "jsstring option"
  ti_message :: "jsstring option"
  ti_content :: "jsstring option"
  ti_to :: "jsstring option"

record tool_response =
  tr_file_content :: "jsstring option"
  tr_stdout :: "jsstring option"
  tr_filenames_json :: "jsstring option"

record evt =
  e_session_id :: "jsstring option"
  e_sessionId :: "jsstring option"
  e_hook_event_name :: "jsstring option"
  e_event :: "jsstring option"
  e_type :: "jsstring option"
  e_tool_name :: "jsstring option"
  e_tool :: "jsstring option"
  e_tool_input :: "tool_input option"
  e_tool_response :: "tool_response option"
  e_cwd :: "jsstring option"
  e_working_directory :: "jsstring option"
  e_model :: "jsstring option"
  e_source :: "jsstring option"
  e_tokens :: "int option"

record pendingTask =
  p_from :: jsstring
  p_label :: jsstring
  p_fullDesc :: jsstring
  p_cwd :: "jsstring option"
  p_timestamp :: int

record message =
  m_id :: jsstring
  m_from :: jsstring
  m_to :: jsstring
  m_text :: jsstring
  m_timestamp :: int

record eventRecord =
  r_id :: jsstring
  r_agentId :: jsstring
  r_event :: jsstring
  r_tool :: "jsstring option"
  r_file :: "jsstring option"
  r_status :: status
  r_activity :: "jsstring option"
  r_timestamp :: int
  r_tokens :: int

text \<open>Team files as read from disk: members of a configuration, and inbox entries.
  \<open>i_text\<close> is the entry's \<open>text\<close> when it is a string and its JSON serialization
  otherwise; it is \<open>None\<close> when the entry has no \<open>text\<close>.\<close>

record member =
  mb_name :: "jsstring option"
  mb_agentId :: "jsstring option"
  mb_agentType :: "jsstring option"
  mb_color :: "jsstring option"
  mb_prompt :: "jsstring option"
  mb_cwd :: "jsstring option"

record teamConfig =
  tc_members :: "member list option"

record inboxEntry =
  i_from :: "jsstring option"
  i_text :: "jsstring option"

record team =
  t_config :: teamConfig
  t_inboxes :: "jsstring \<rightharpoonup> inboxEntry list"

text \<open>What \<open>broadcast\<close> sends to the subscribers. The payload is serialized when it is
  sent, so an agent in it is the record as it is at that moment.\<close>

datatype broadcast =
    Agent_join agent
  | Event_msg eventRecord agent
  | Message_msg message
  | Team_update jsstring teamConfig
  | Inbox_update jsstring jsstring "inboxEntry list" nat

text \<open>The module-level state, with the broadcasts sent so far.\<close>

record state =
  knownAgents :: "jsstring \<rightharpoonup> agent"
  colorIndex :: nat
  recentEvents :: "eventRecord list"
  recentMessages :: "message list"
  pendingTasks :: "pendingTask list"
  teamsState :: "jsstring \<rightharpoonup> team"
  eventsFileSize :: nat
  sent :: "broadcast list"

text \<open>What a handler reads from outside the state: the clock (\<open>Date.now()\<close>, read once
  per handler run here) and the random identifiers of the message and of the event record.\<close>

record env =
  now :: int
  msgId :: jsstring
  recId :: jsstring

definition MAX_EVENTS :: nat where "MAX_EVENTS = 500"
definition MAX_MESSAGES :: nat where "MAX_MESSAGES = 100"

definition PALETTE :: "jsstring list" where
  "PALETTE = map js
     [''#ff6b35'', ''#00d4aa'', ''#7b68ee'', ''#ffd166'', ''#ef476f'',
      ''#06d6a0'', ''#118ab2'', ''#e63946'', ''#a8dadc'', ''#f4a261'',
      ''#2a9d8f'', ''#e76f51'', ''#264653'', ''#d4a373'', ''#cdb4db'',
      ''#ffc8dd'', ''#bde0fe'', ''#a2d2ff'', ''#caffbf'', ''#ffd6ff'']"

definition initialState :: state where
  "initialState =
     \<lparr>knownAgents = Map.empty, colorIndex = 0, recentEvents = [], recentMessages = [],
      pendingTasks = [], teamsState = Map.empty, eventsFileSize = 0, sent = []\<rparr>"

text \<open>\<open>xs.push(x); if (xs.length > cap) xs.shift()\<close>\<close>

definition pushBounded :: "nat \<Rightarrow> 'a \<Rightarrow> 'a list \<Rightarrow> 'a list" where
  "pushBounded cap x xs = (let ys = xs @ [x] in if length ys > cap then tl ys else ys)"

section \<open>Agent registry\<close>

record hints =
  h_label :: "jsstring option"
  h_role :: "jsstring option"
  h_cwd :: "jsstring option"

definition placeholderLabel :: "jsstring \<Rightarrow> jsstring" where
  "placeholderLabel sessionId = js ''Agent '' @ take 8 sessionId"

definition newAgent :: "int \<Rightarrow> jsstring \<Rightarrow> hints \<Rightarrow> jsstring \<Rightarrow> agent" where
  "newAgent t sessionId extra col =
     \<lparr>aid = sessionId,
      shortId = take 8 sessionId,
      label = js_or_str (h_label extra) (placeholderLabel sessionId),
      role = js_or_str (h_role extra) (js ''worker''),
      color = col,
      status = Idle,
      lastTool = None,
      lastFile = Missing,
      lastActive = t,
      tokens = 0,
      toolCalls = 0,
      firstSeen = t,
      cwd = js_or (h_cwd extra) None,
      statusSetAt = None,
      activity = None,
      filePaths = [],
      taskLabel = None,
      teamName = None,
      teamAgentId = None,
      teamMemberName = None,
      agentType = None,
      spawnPrompt = None\<rparr>"

definition applyHints :: "hints \<Rightarrow> agent \<Rightarrow> agent" where
  "applyHints extra existing =
     (let e1 = (if truthy (h_label extra) \<and> startsWith (label existing) (js ''Agent '')
                then existing\<lparr>label := the (h_label extra)\<rparr> else existing)
      in if truthy (h_role extra) \<and> role e1 = js ''worker''
         then e1\<lparr>role := the (h_role extra)\<rparr> else e1)"

text \<open>\<open>getOrCreateAgent\<close> returns the stored record together with the new state.\<close>

definition getOrCreateAgent :: "int \<Rightarrow> jsstring \<Rightarrow> hints \<Rightarrow> state \<Rightarrow> agent \<times> state" where
  "getOrCreateAgent t sessionId extra st =
     (case knownAgents st sessionId of
        None \<Rightarrow>
          (let a = newAgent t sessionId extra (PALETTE ! (colorIndex st mod length PALETTE))
           in (a, st\<lparr>knownAgents := (knownAgents st)(sessionId \<mapsto> a),
                     colorIndex := colorIndex st + 1,
                     sent := sent st @ [Agent_join a]\<rparr>))
      | Some existing \<Rightarrow>
          (let a = applyHints extra existing
           in (a, st\<lparr>knownAgents := (knownAgents st)(sessionId \<mapsto> a)\<rparr>)))"

section \<open>Role inference from file patterns\<close>

text \<open>\<open>paths.join("\n")\<close>\<close>

fun joinLines :: "jsstring list \<Rightarrow> jsstring" where
  "joinLines [] = []"
| "joinLines [p] = p"
| "joinLines (p # q # ps) = p @ newline # joinLines (q # ps)"

text \<open>
  \<open>toLowerCase\<close>, as far as the patterns can see it: the patterns are ASCII, the letters
  \<open>A\<close> to \<open>Z\<close> map to \<open>a\<close> to \<open>z\<close>, and the only other code units whose lower case
  contains an ASCII letter are the Kelvin sign (to \<open>k\<close>) and the dotted capital I (to
  \<open>i\<close> and a combining dot). Every other code unit is left as it is here; JavaScript
  maps it to code units outside ASCII.
\<close>

definition lowerChar :: "nat \<Rightarrow> jsstring" where
  "lowerChar c =
     (if 65 \<le> c \<and> c \<le> 90 then [c + 32]
      else if c = 8490 then [107]
      else if c = 304 then [105, 775]
      else [c])"

definition toLowerCase :: "jsstring \<Rightarrow> jsstring" where
  "toLowerCase s = concat (map lowerChar s)"

text \<open>
  \<open>joined.match(re)\<close> for a global regular expression that is an alternation of
  literals: scanning from the left, the first alternative that matches at the current
  position is taken and the scan resumes after it, otherwise the scan moves on by one
  character. \<open>countMatches\<close> is the number of matches found.
\<close>

definition isPrefixOf :: "jsstring \<Rightarrow> jsstring \<Rightarrow> bool" where
  "isPrefixOf p s = (take (length p) s = p)"

fun countMatches :: "jsstring list \<Rightarrow> jsstring \<Rightarrow> nat" where
  "countMatches alts [] = 0"
| "countMatches alts (c # cs) =
     (case find (\<lambda>a. isPrefixOf a (c # cs)) alts of
        None \<Rightarrow> countMatches alts cs
      | Some a \<Rightarrow> Suc (countMatches alts (drop (length a - 1) cs)))"

definition patterns :: "(jsstring \<times> jsstring list) list" where
  "patterns =
     [(js ''Tests'', map js [''test'', ''spec'', ''__test__'', ''.test.'', ''.spec.'']),
      (js ''API'', map js [''api'', ''route'', ''endpoint'', ''controller'', ''handler'']),
      (js ''Frontend'', map js [''component'', ''page'', ''view'', ''layout'', ''.tsx'', ''.jsx'',
                               ''.vue'', ''.svelte'']),
      (js ''Database'', map js [''migration'', ''schema'', ''model'', ''seed'', ''.sql'', ''prisma'',
                               ''drizzle'']),
      (js ''Config'', map js [''config'', ''.env'', ''package.json'', ''tsconfig'', ''webpack'',
                             ''vite'']),
      (js ''Docs'', map js [''readme'', ''doc'', ''.md'', ''guide'', ''spec/'']),
      (js ''DevOps'', map js [''docker'', ''ci'', ''deploy'', ''.yml'', ''.yaml'', ''terraform'',
                             ''k8s'']),
      (js ''Styles'', map js [''.css'', ''.scss'', ''tailwind'', ''theme'', ''style''])]"

text \<open>The loop over the patterns: \<open>best\<close> and \<open>bestCount\<close> change only on a strictly
  greater count.\<close>

fun pickBest :: "jsstring \<Rightarrow> (jsstring \<times> jsstring list) list \<Rightarrow> jsstring option \<times> nat
                 \<Rightarrow> jsstring option \<times> nat" where
  "pickBest joined [] acc = acc"
| "pickBest joined ((lbl, alts) # ps) (best, bestCount) =
     (let count = countMatches alts joined
      in if count > bestCount then pickBest joined ps (Some lbl, count)
         else pickBest joined ps (best, bestCount))"

definition inferRoleFromFiles :: "jsstring list \<Rightarrow> jsstring option" where
  "inferRoleFromFiles paths =
     (let joined = toLowerCase (joinLines paths);
          (best, bestCount) = pickBest joined patterns (None, 0)
      in if bestCount \<ge> 2 then best else None)"

text \<open>The match count of the \<open>i\<close>-th pattern over a file-path history.\<close>

definition hits :: "jsstring list \<Rightarrow> nat \<Rightarrow> nat" where
  "hits paths i = countMatches (snd (patterns ! i)) (toLowerCase (joinLines paths))"

section \<open>Event processing\<close>

text \<open>Normalization of the event's loosely named fields.\<close>

definition emptyInput :: tool_input where
  "emptyInput = \<lparr>ti_file_path = None, ti_command = None, ti_path = None, ti_description = None,
     ti_prompt = None, ti_task = None, ti_message = None, ti_content = None, ti_to = None\<rparr>"

definition sessionIdOf :: "evt \<Rightarrow> jsstring" where
  "sessionIdOf e = js_or_str (js_or (e_session_id e) (e_sessionId e)) (js ''unknown'')"

definition hookEventOf :: "evt \<Rightarrow> jsstring" where
  "hookEventOf e =
     js_or_str (js_or (e_hook_event_name e) (js_or (e_event e) (e_type e))) (js ''unknown'')"

definition toolNameOf :: "evt \<Rightarrow> jsstring option" where
  "toolNameOf e = js_or (e_tool_name e) (js_or (e_tool e) None)"

definition toolInputOf :: "evt \<Rightarrow> tool_input" where
  "toolInputOf e = (case e_tool_input e of None \<Rightarrow> emptyInput | Some ti \<Rightarrow> ti)"

definition filePathOf :: "evt \<Rightarrow> jsstring option" where
  "filePathOf e =
     (let toolInput = toolInputOf e
      in js_or (ti_file_path toolInput) (js_or (ti_command toolInput)
           (js_or (ti_path toolInput) None)))"

definition cwdOf :: "evt \<Rightarrow> jsstring option" where
  "cwdOf e = js_or (e_cwd e) (js_or (e_working_directory e) None)"

text \<open>\<open>s.replace("claude-", "")\<close>: the first occurrence only.\<close>

fun removeFirstOccurrence :: "jsstring \<Rightarrow> jsstring \<Rightarrow> jsstring" where
  "removeFirstOccurrence p [] = []"
| "removeFirstOccurrence p (c # cs) =
     (if isPrefixOf p (c # cs) then drop (length p) (c # cs)
      else c # removeFirstOccurrence p cs)"

text \<open>\<open>s.replace(/-\d+$/, "")\<close>: a dash followed by digits up to the end.\<close>

definition is_digit :: "nat \<Rightarrow> bool" where
  "is_digit c = (48 \<le> c \<and> c \<le> 57)"

fun stripVersion :: "jsstring \<Rightarrow> jsstring" where
  "stripVersion [] = []"
| "stripVersion (c # cs) =
     (if c = 45 \<and> cs \<noteq> [] \<and> list_all is_digit cs then []
      else c # stripVersion cs)"

definition hintsOf :: "evt \<Rightarrow> hints" where
  "hintsOf e =
     \<lparr>h_label = (if truthy (e_model e)
                  then Some (stripVersion (removeFirstOccurrence (js ''claude-'') (the (e_model e)))
                             @ space # take 6 (sessionIdOf e))
                  else None),
      h_role = (if e_source e = Some (js ''startup'') then Some (js ''lead'') else None),
      h_cwd = cwdOf e\<rparr>"

text \<open>The kinds of hook event the status code distinguishes.\<close>

definition isPreTool :: "jsstring \<Rightarrow> bool" where
  "isPreTool h = (h = js ''pre_tool'' \<or> h = js ''PreToolUse'')"

definition isPostTool :: "jsstring \<Rightarrow> bool" where
  "isPostTool h = (h = js ''post_tool'' \<or> h = js ''PostToolUse'')"

definition isStop :: "jsstring \<Rightarrow> bool" where
  "isStop h = (h = js ''stop'' \<or> h = js ''Stop'')"

definition isSessionStart :: "jsstring \<Rightarrow> bool" where
  "isSessionStart h = (h = js ''session_start'' \<or> h = js ''SessionStart'')"

definition isSubagentStop :: "jsstring \<Rightarrow> bool" where
  "isSubagentStop h = (h = js ''subagent_stop'' \<or> h = js ''SubagentStop'')"

definition isTaskDone :: "jsstring \<Rightarrow> bool" where
  "isTaskDone h = (h = js ''task_done'' \<or> h = js ''TaskCompleted'')"

definition STATUS_HOLD_MS :: int where "STATUS_HOLD_MS = 3000"

text \<open>The status chosen on a pre-tool event.\<close>

definition activeStatus :: "jsstring option \<Rightarrow> status" where
  "activeStatus toolName =
     (if toolName = Some (js ''Read'') \<or> toolName = Some (js ''Grep'')
         \<or> toolName = Some (js ''Glob'') \<or> toolName = Some (js ''ListDir'') then Reading
      else if toolName = Some (js ''Write'') \<or> toolName = Some (js ''Edit'') then Writing
      else if toolName = Some (js ''Task'') \<or> toolName = Some (js ''SendMessage'') then Delegating
      else if toolName = Some (js ''Bash'') then Tool_call
      else Tool_call)"

text \<open>Status with hold timer. \<open>agent._statusSetAt || 0\<close> is \<open>0\<close> for an agent that has
  no stamp.\<close>

definition updateStatus :: "int \<Rightarrow> jsstring \<Rightarrow> jsstring option \<Rightarrow> agent \<Rightarrow> agent" where
  "updateStatus t hookEvent toolName a =
     (if isPreTool hookEvent then a\<lparr>statusSetAt := Some t, status := activeStatus toolName\<rparr>
      else if isPostTool hookEvent then
        (let elapsed = t - (case statusSetAt a of None \<Rightarrow> 0 | Some s \<Rightarrow> s)
         in if elapsed \<ge> STATUS_HOLD_MS then a\<lparr>status := Thinking\<rparr> else a)
      else if isStop hookEvent then a\<lparr>status := Done\<rparr>
      else if isSessionStart hookEvent then a\<lparr>status := Starting\<rparr>
      else if isSubagentStop hookEvent then a\<lparr>status := Done\<rparr>
      else if isTaskDone hookEvent then a\<lparr>status := Done\<rparr>
      else a)"

text \<open>Activity line: \<open>filePath.replace(/\\/g, "/").split("/").pop()\<close> is the last
  segment of the path.\<close>

definition backslashToSlash :: "jsstring \<Rightarrow> jsstring" where
  "backslashToSlash s = map (\<lambda>c. if c = 92 then 47 else c) s"

definition lastSegment :: "jsstring \<Rightarrow> jsstring" where
  "lastSegment s = rev (takeWhile (\<lambda>c. c \<noteq> 47) (rev s))"

definition arrow :: jsstring where
  "arrow = [32, 8594, 32]"

definition updateActivity :: "jsstring \<Rightarrow> jsstring option \<Rightarrow> jsstring option \<Rightarrow> agent \<Rightarrow> agent" where
  "updateActivity hookEvent toolName filePath a =
     (if truthy toolName \<and> isPreTool hookEvent then
        (let shortFile = (if truthy filePath then lastSegment (backslashToSlash (the filePath))
                          else [])
         in a\<lparr>activity := Some (if shortFile \<noteq> [] then the toolName @ arrow @ shortFile
                                  else the toolName)\<rparr>)
      else a)"

text \<open>\<open>agent.lastTool = toolName; agent.lastFile = filePath; agent.lastActive = Date.now();
  agent.toolCalls++\<close>\<close>

definition touch :: "int \<Rightarrow> jsstring option \<Rightarrow> strField \<Rightarrow> agent \<Rightarrow> agent" where
  "touch t toolName filePath a =
     a\<lparr>lastTool := toolName, lastFile := filePath, lastActive := t,
       toolCalls := roundNat (toolCalls a + 1)\<rparr>"

text \<open>\<open>if (xs.length > 30) xs = xs.slice(-30)\<close>\<close>

definition keepLast30 :: "'a list \<Rightarrow> 'a list" where
  "keepLast30 xs = (if length xs > 30 then drop (length xs - 30) xs else xs)"

text \<open>File pattern tracking: the last 30 paths are kept, and the inferred role becomes
  the label when there is no task label and the label starts with \<open>"Agent "\<close>.\<close>

definition trackFile :: "jsstring option \<Rightarrow> agent \<Rightarrow> agent" where
  "trackFile filePath a =
     (if truthy filePath then
        (let kept = keepLast30 (filePaths a @ [backslashToSlash (the filePath)]);
             a1 = a\<lparr>filePaths := kept\<rparr>
         in if \<not> truthy (taskLabel a1) then
              (case inferRoleFromFiles kept of
                 None \<Rightarrow> a1
               | Some inferred \<Rightarrow>
                   if inferred \<noteq> [] \<and> startsWith (label a1) (js ''Agent '')
                   then a1\<lparr>label := inferred\<rparr> else a1)
            else a1)
      else a)"

text \<open>Token estimation. \<open>Math.ceil(n / 4)\<close> of a length \<open>n\<close>; lengths are far below
  \<open>2^53\<close>, so the sums of the estimate are exact. The \<open>filenames\<close> branch is taken when
  the value is truthy, which its serialization shows: the falsy values serialize to
  \<open>""\<close>, \<open>0\<close>, \<open>false\<close> and \<open>null\<close>.\<close>

definition falsyJson :: "jsstring \<Rightarrow> bool" where
  "falsyJson j = (j = [34, 34] \<or> j = js ''0'' \<or> j = js ''false'' \<or> j = js ''null'')"

definition ceilQuarter :: "nat \<Rightarrow> int" where
  "ceilQuarter n = int ((n + 3) div 4)"

definition estimateTokens :: "evt \<Rightarrow> int" where
  "estimateTokens e =
     (let fromResponse =
            (case e_tool_response e of
               None \<Rightarrow> 0
             | Some resp \<Rightarrow>
                 if truthy (tr_file_content resp) then ceilQuarter (length (the (tr_file_content resp)))
                 else if truthy (tr_stdout resp) then ceilQuarter (length (the (tr_stdout resp)))
                 else (case tr_filenames_json resp of
                         None \<Rightarrow> 0
                       | Some j \<Rightarrow> if falsyJson j then 0 else ceilQuarter (length j)));
          content = ti_content (toolInputOf e);
          estimated = (if truthy content then fromResponse + ceilQuarter (length (the content))
                       else fromResponse)
      in case e_tokens e of
           None \<Rightarrow> estimated
         | Some n \<Rightarrow> if n \<noteq> 0 then n else estimated)"

text \<open>\<open>agent.tokens += estimatedTokens\<close>\<close>

definition addTokens :: "int \<Rightarrow> agent \<Rightarrow> agent" where
  "addTokens n a = a\<lparr>tokens := jsAdd (tokens a) n\<rparr>"

text \<open>The part of \<open>processEvent\<close> that only changes the agent record, up to the token
  estimate.\<close>

definition updateAgent :: "env \<Rightarrow> evt \<Rightarrow> agent \<Rightarrow> agent" where
  "updateAgent env e a =
     addTokens (estimateTokens e)
       (trackFile (filePathOf e)
         (touch (now env) (toolNameOf e) (fieldOf (filePathOf e))
           (updateActivity (hookEventOf e) (toolNameOf e) (filePathOf e)
             (updateStatus (now env) (hookEventOf e) (toolNameOf e) a))))"

text \<open>Task delegation: the description, the pending task and the placeholder message.\<close>

definition taskDescOf :: "evt \<Rightarrow> jsstring" where
  "taskDescOf e =
     (let toolInput = toolInputOf e
      in js_or_str (js_or (ti_description toolInput) (js_or (ti_prompt toolInput)
           (js_or (ti_task toolInput) (js_or (ti_message toolInput) (ti_content toolInput))))) [])"

definition isDelegation :: "evt \<Rightarrow> bool" where
  "isDelegation e =
     (toolNameOf e = Some (js ''Task'') \<and> isPreTool (hookEventOf e) \<and> taskDescOf e \<noteq> [])"

definition delegationPending :: "env \<Rightarrow> evt \<Rightarrow> agent \<Rightarrow> pendingTask" where
  "delegationPending env e a =
     \<lparr>p_from = sessionIdOf e, p_label = summarizeTask (taskDescOf e),
      p_fullDesc = take 200 (taskDescOf e), p_cwd = cwd a, p_timestamp = now env\<rparr>"

definition delegationMessage :: "env \<Rightarrow> evt \<Rightarrow> message" where
  "delegationMessage env e =
     \<lparr>m_id = msgId env, m_from = sessionIdOf e, m_to = js ''subagent'',
      m_text = summarizeTask (taskDescOf e), m_timestamp = now env\<rparr>"

text \<open>The task matcher. \<open>pendingTasks.find\<close> returns the first entry of the queue that
  satisfies the test, \<open>recentMessages.find\<close> the first message; \<open>indexOf\<close> and \<open>splice\<close>
  remove the entry that was found.\<close>

definition eligible :: "int \<Rightarrow> jsstring \<Rightarrow> pendingTask \<Rightarrow> bool" where
  "eligible t sessionId p = (t - p_timestamp p < 15000 \<and> p_from p \<noteq> sessionId)"

fun removeFirst :: "('a \<Rightarrow> bool) \<Rightarrow> 'a list \<Rightarrow> 'a list" where
  "removeFirst P [] = []"
| "removeFirst P (x # xs) = (if P x then xs else x # removeFirst P xs)"

fun updateFirst :: "('a \<Rightarrow> bool) \<Rightarrow> ('a \<Rightarrow> 'a) \<Rightarrow> 'a list \<Rightarrow> 'a list" where
  "updateFirst P f [] = []"
| "updateFirst P f (x # xs) = (if P x then f x # xs else x # updateFirst P f xs)"

definition placeholderFor :: "pendingTask \<Rightarrow> message \<Rightarrow> bool" where
  "placeholderFor pending m =
     (m_from m = p_from pending \<and> m_to m = js ''subagent'' \<and> m_text m = p_label pending)"

definition matchPending :: "env \<Rightarrow> evt \<Rightarrow> agent \<times> state \<Rightarrow> agent \<times> state" where
  "matchPending env e as =
     (let a = fst as; st = snd as; sessionId = sessionIdOf e in
      if isSessionStart (hookEventOf e) \<and> pendingTasks st \<noteq> [] then
        (case find (eligible (now env) sessionId) (pendingTasks st) of
           None \<Rightarrow> (a, st)
         | Some pending \<Rightarrow>
             (let a1 = a\<lparr>taskLabel := Some (p_label pending), label := p_label pending\<rparr>
              in (a1, st\<lparr>recentMessages :=
                            updateFirst (placeholderFor pending) (\<lambda>m. m\<lparr>m_to := sessionId\<rparr>)
                              (recentMessages st),
                          pendingTasks := removeFirst (eligible (now env) sessionId) (pendingTasks st),
                          sent := sent st @ [Agent_join a1]\<rparr>)))
      else (a, st))"

text \<open>The message of the event, if any: a \<open>SendMessage\<close> with a recipient replaces the
  delegation message.\<close>

definition sendMessageOf :: "env \<Rightarrow> evt \<Rightarrow> message option" where
  "sendMessageOf env e =
     (let toolInput = toolInputOf e in
      if toolNameOf e = Some (js ''SendMessage'') \<and> truthy (ti_to toolInput) then
        Some \<lparr>m_id = msgId env, m_from = sessionIdOf e, m_to = the (ti_to toolInput),
              m_text = js_or_str (js_or (ti_message toolInput) (ti_content toolInput)) (js ''message''),
              m_timestamp = now env\<rparr>
      else None)"

definition messageOf :: "env \<Rightarrow> evt \<Rightarrow> message option" where
  "messageOf env e =
     (case sendMessageOf env e of
        Some m \<Rightarrow> Some m
      | None \<Rightarrow> if isDelegation e then Some (delegationMessage env e) else None)"

definition recordOf :: "env \<Rightarrow> evt \<Rightarrow> agent \<Rightarrow> eventRecord" where
  "recordOf env e a =
     \<lparr>r_id = recId env, r_agentId = sessionIdOf e, r_event = hookEventOf e,
      r_tool = toolNameOf e, r_file = filePathOf e, r_status = status a,
      r_activity = activity a, r_timestamp = now env, r_tokens = estimateTokens e\<rparr>"

text \<open>\<open>processEvent\<close> on an event whose fields hold strings where a string method is
  called: the run reaches its end. The clock is read once per run.\<close>

definition processEvent :: "env \<Rightarrow> evt \<Rightarrow> state \<Rightarrow> state" where
  "processEvent env e st0 =
     (let sessionId = sessionIdOf e;
          (agent0, st1) = getOrCreateAgent (now env) sessionId (hintsOf e) st0;
          agent1 = updateAgent env e agent0;
          st2 = (if isDelegation e
                 then st1\<lparr>pendingTasks := pendingTasks st1 @ [delegationPending env e agent1]\<rparr>
                 else st1);
          (agent2, st3) = matchPending env e (agent1, st2);
          message = messageOf env e;
          st4 = (case message of
                   None \<Rightarrow> st3
                 | Some m \<Rightarrow> st3\<lparr>recentMessages := pushBounded MAX_MESSAGES m (recentMessages st3)\<rparr>);
          record = recordOf env e agent2;
          st5 = st4\<lparr>knownAgents := (knownAgents st4)(sessionId \<mapsto> agent2),
                    recentEvents := pushBounded MAX_EVENTS record (recentEvents st4)\<rparr>
      in st5\<lparr>sent := sent st5 @ Event_msg record agent2 #
                  (case message of None \<Rightarrow> [] | Some m \<Rightarrow> [Message_msg m])\<rparr>)"

section \<open>Events as the log delivers them\<close>

text \<open>
  The log can deliver any JSON value in a field. On some reads the code calls a string
  method, which throws a \<open>TypeError\<close> on a truthy value that is no string: on the
  session id (\<open>substring\<close>), on \<open>model\<close> (\<open>replace\<close>), on the file path chosen among
  \<open>file_path\<close>, \<open>command\<close> and \<open>path\<close> (\<open>replace\<close>), and on the description of a
  delegation chosen among \<open>description\<close>, \<open>prompt\<close>, \<open>task\<close>, \<open>message\<close> and
  \<open>content\<close> (\<open>replace\<close> in \<open>summarizeTask\<close>). A raw event holds a \<open>strField\<close> in
  these fields, except \<open>message\<close> and \<open>content\<close>. Its remaining fields hold, where
  they are present, values of the type the code reads them at: \<open>tokens\<close> an integer, as
  \<open>JSON.parse\<close> delivers it, and the contents whose \<open>length\<close> is read (\<open>content\<close>,
  \<open>message\<close>, the file content and the output of the response) strings. On other
  values there the code does not throw; it computes with \<open>undefined\<close>, which is outside
  this development.
\<close>

record rawInput =
  ri_file_path :: strField
  ri_command :: strField
  ri_path :: strField
  ri_description :: strField
  ri_prompt :: strField
  ri_task :: strField
  ri_message :: "jsstring option"
  ri_content :: "jsstring option"
  ri_to :: "jsstring option"

record rawEvt =
  rw_session_id :: strField
  rw_sessionId :: strField
  rw_hook_event_name :: "jsstring option"
  rw_event :: "jsstring option"
  rw_type :: "jsstring option"
  rw_tool_name :: "jsstring option"
  rw_tool :: "jsstring option"
  rw_tool_input :: "rawInput option"
  rw_tool_response :: "tool_response option"
  rw_cwd :: "jsstring option"
  rw_working_directory :: "jsstring option"
  rw_model :: strField
  rw_source :: "jsstring option"
  rw_tokens :: "int option"

text \<open>The event with the strings of the raw event, for the run past the method calls.\<close>

definition typedInput :: "rawInput \<Rightarrow> tool_input" where
  "typedInput i =
     \<lparr>ti_file_path = textOf (ri_file_path i), ti_command = textOf (ri_command i),
      ti_path = textOf (ri_path i), ti_description = textOf (ri_description i),
      ti_prompt = textOf (ri_prompt i), ti_task = textOf (ri_task i),
      ti_message = ri_message i, ti_content = ri_content i, ti_to = ri_to i\<rparr>"

definition typedEvt :: "rawEvt \<Rightarrow> evt" where
  "typedEvt r =
     \<lparr>e_session_id = textOf (rw_session_id r), e_sessionId = textOf (rw_sessionId r),
      e_hook_event_name = rw_hook_event_name r, e_event = rw_event r, e_type = rw_type r,
      e_tool_name = rw_tool_name r, e_tool = rw_tool r,
      e_tool_input = map_option typedInput (rw_tool_input r),
      e_tool_response = rw_tool_response r, e_cwd = rw_cwd r,
      e_working_directory = rw_working_directory r, e_model = textOf (rw_model r),
      e_source = rw_source r, e_tokens = rw_tokens r\<rparr>"

text \<open>The values on which the string methods are called.\<close>

definition emptyRawInput :: rawInput where
  "emptyRawInput =
     \<lparr>ri_file_path = Missing, ri_command = Missing, ri_path = Missing,
      ri_description = Missing, ri_prompt = Missing, ri_task = Missing,
      ri_message = None, ri_content = None, ri_to = None\<rparr>"

definition rawInputOf :: "rawEvt \<Rightarrow> rawInput" where
  "rawInputOf r = (case rw_tool_input r of None \<Rightarrow> emptyRawInput | Some i \<Rightarrow> i)"

definition rawSessionId :: "rawEvt \<Rightarrow> strField" where
  "rawSessionId r =
     orField (rw_session_id r) (orField (rw_sessionId r) (Text (js ''unknown'')))"

definition rawFilePath :: "rawEvt \<Rightarrow> strField" where
  "rawFilePath r =
     (let i = rawInputOf r
      in orField (ri_file_path i) (orField (ri_command i) (orField (ri_path i) Missing)))"

definition rawTaskDesc :: "rawEvt \<Rightarrow> strField" where
  "rawTaskDesc r =
     (let i = rawInputOf r
      in orField (ri_description i) (orField (ri_prompt i) (orField (ri_task i)
           (fieldOf (js_or (ri_message i) (ri_content i))))))"

text \<open>
  Where a run of \<open>processEvent\<close> throws, if it does. A non-string \<open>model\<close> or session id
  throws while the hints are built or in \<open>getOrCreateAgent\<close>, before anything is
  stored. A non-string file path throws in the activity line when the event is a pre-tool
  event with a tool name, after the status is set, and otherwise in the file tracking,
  after \<open>toolCalls++\<close>. A non-string description of a \<open>Task\<close> pre-tool event throws in
  \<open>summarizeTask\<close>, after the token count is added.
\<close>

datatype abortAt = BeforeAgent | InActivity | InFileTracking | InSummary

definition abortPoint :: "rawEvt \<Rightarrow> abortAt option" where
  "abortPoint r =
     (let e = typedEvt r in
      if rw_model r = NotText \<or> rawSessionId r = NotText then Some BeforeAgent
      else if rawFilePath r = NotText then
        (if truthy (toolNameOf e) \<and> isPreTool (hookEventOf e) then Some InActivity
         else Some InFileTracking)
      else if toolNameOf e = Some (js ''Task'') \<and> isPreTool (hookEventOf e)
              \<and> rawTaskDesc r = NotText then Some InSummary
      else None)"

definition aborts :: "rawEvt \<Rightarrow> bool" where
  "aborts r = (abortPoint r \<noteq> None)"

text \<open>The agent record as the throw leaves it. The agent object is changed in place, so
  the changes made before the throw stay in \<open>knownAgents\<close>.\<close>

fun agentAtAbort :: "env \<Rightarrow> evt \<Rightarrow> abortAt \<Rightarrow> agent \<Rightarrow> agent" where
  "agentAtAbort env e BeforeAgent a = a"
| "agentAtAbort env e InActivity a =
     updateStatus (now env) (hookEventOf e) (toolNameOf e) a"
| "agentAtAbort env e InFileTracking a =
     touch (now env) (toolNameOf e) NotText
       (updateStatus (now env) (hookEventOf e) (toolNameOf e) a)"
| "agentAtAbort env e InSummary a = updateAgent env e a"

text \<open>A handler run either completes or lets a \<open>TypeError\<close> escape; the state is the one
  reached.\<close>

datatype outcome = Completed state | Uncaught state

fun stateOf :: "outcome \<Rightarrow> state" where
  "stateOf (Completed st) = st"
| "stateOf (Uncaught st) = st"

text \<open>\<open>processEvent\<close> on a raw event.\<close>

definition processRawEvent :: "env \<Rightarrow> rawEvt \<Rightarrow> state \<Rightarrow> outcome" where
  "processRawEvent env r st =
     (let e = typedEvt r; sessionId = sessionIdOf e in
      case abortPoint r of
        None \<Rightarrow> Completed (processEvent env e st)
      | Some BeforeAgent \<Rightarrow> Uncaught st
      | Some p \<Rightarrow>
          (let (agent0, st1) = getOrCreateAgent (now env) sessionId (hintsOf e) st
           in Uncaught (st1\<lparr>knownAgents :=
                              (knownAgents st1)(sessionId \<mapsto> agentAtAbort env e p agent0)\<rparr>)))"

section \<open>Team directory watcher\<close>

text \<open>\<open>s.split("/")\<close>\<close>

fun splitOn :: "nat \<Rightarrow> jsstring \<Rightarrow> jsstring list" where
  "splitOn sep [] = [[]]"
| "splitOn sep (c # cs) =
     (if c = sep then [] # splitOn sep cs
      else (case splitOn sep cs of
              [] \<Rightarrow> [[c]]
            | w # ws \<Rightarrow> (c # w) # ws))"

text \<open>\<open>parts[i]\<close>, which is \<open>undefined\<close> beyond the end.\<close>

definition partAt :: "jsstring list \<Rightarrow> nat \<Rightarrow> jsstring option" where
  "partAt parts i = (if i < length parts then Some (parts ! i) else None)"

text \<open>
  What one run of the debounced handler reads from outside the state: the team's files
  (\<open>readTeamConfig\<close> and \<open>readTeamInboxes\<close>, each a function of the team name), the
  path library's \<open>path.basename(p, ".json")\<close>, and the random identifier of the
  \<open>i\<close>-th new message. The task files, which the handler stores in the team entry and
  does not look at, are left out of the team entry.
\<close>

record host =
  readTeamConfig :: "jsstring \<Rightarrow> teamConfig option"
  readTeamInboxes :: "jsstring \<Rightarrow> (jsstring \<rightharpoonup> inboxEntry list)"
  basenameJson :: "jsstring \<Rightarrow> jsstring"
  visualId :: "nat \<Rightarrow> jsstring"

text \<open>Registration of one member of the configuration. In the template literal an
  absent name prints as \<open>undefined\<close>.\<close>

definition memberAgentId :: "jsstring \<Rightarrow> member \<Rightarrow> jsstring" where
  "memberAgentId team m =
     js_or_str (mb_agentId m)
       ((case mb_name m of None \<Rightarrow> js ''undefined'' | Some n \<Rightarrow> n) @ 64 # team)"

definition memberHints :: "jsstring \<Rightarrow> member \<Rightarrow> hints" where
  "memberHints team m =
     \<lparr>h_label = Some (js_or_str (mb_name m) (memberAgentId team m)),
      h_role = Some (if mb_agentType m = Some (js ''team-lead'') then js ''lead'' else js ''worker''),
      h_cwd = js_or (mb_cwd m) None\<rparr>"

definition enrich :: "jsstring \<Rightarrow> member \<Rightarrow> agent \<Rightarrow> agent" where
  "enrich team m a =
     (let agentId = memberAgentId team m;
          a1 = a\<lparr>teamName := Some team, teamAgentId := Some agentId,
                 teamMemberName := Some (js_or_str (mb_name m) (takeWhile (\<lambda>c. c \<noteq> 64) agentId)),
                 agentType := mb_agentType m\<rparr>;
          a2 = (if truthy (mb_color m) then a1\<lparr>color := the (mb_color m)\<rparr> else a1);
          a3 = (if truthy (mb_prompt m) then a2\<lparr>spawnPrompt := mb_prompt m\<rparr> else a2)
      in if truthy (mb_name m) \<and> (startsWith (label a3) (js ''Agent '') \<or> \<not> truthy (taskLabel a3))
         then a3\<lparr>label := the (mb_name m)\<rparr> else a3)"

definition registerMember :: "int \<Rightarrow> jsstring \<Rightarrow> state \<Rightarrow> member \<Rightarrow> state" where
  "registerMember t team st m =
     (let agentId = memberAgentId team m;
          (a, st1) = getOrCreateAgent t agentId (memberHints team m) st
      in st1\<lparr>knownAgents := (knownAgents st1)(agentId \<mapsto> enrich team m a)\<rparr>)"

text \<open>The visual message edges of the new inbox entries. An entry with a sender and no
  \<open>text\<close> makes \<open>JSON.stringify(msg.text).substring\<close> throw.\<close>

definition visualMessage :: "env \<Rightarrow> jsstring \<Rightarrow> jsstring \<Rightarrow> jsstring \<Rightarrow> jsstring \<Rightarrow> jsstring
                              \<Rightarrow> state \<Rightarrow> message" where
  "visualMessage env ident team agentName sender txt st =
     (let fromId = sender @ 64 # team;
          toId = agentName @ 64 # team
      in \<lparr>m_id = ident,
          m_from = (if fromId \<in> dom (knownAgents st) then fromId else sender),
          m_to = (if toId \<in> dom (knownAgents st) then toId else agentName),
          m_text = take 100 txt,
          m_timestamp = now env\<rparr>)"

fun visualMessages :: "host \<Rightarrow> env \<Rightarrow> jsstring \<Rightarrow> jsstring \<Rightarrow> nat \<Rightarrow> inboxEntry list \<Rightarrow> state
                        \<Rightarrow> outcome" where
  "visualMessages h env team agentName i [] st = Completed st"
| "visualMessages h env team agentName i (msg # rest) st =
     (if truthy (i_from msg) then
        (case i_text msg of
           None \<Rightarrow> Uncaught st
         | Some txt \<Rightarrow>
             (let v = visualMessage env (visualId h i) team agentName (the (i_from msg)) txt st
              in visualMessages h env team agentName (Suc i) rest
                   (st\<lparr>recentMessages := pushBounded MAX_MESSAGES v (recentMessages st),
                       sent := sent st @ [Message_msg v]\<rparr>)))
      else visualMessages h env team agentName (Suc i) rest st)"

text \<open>The inbox of a member in the snapshot held before the re-read, and in the re-read.\<close>

definition prevInbox :: "state \<Rightarrow> jsstring \<Rightarrow> jsstring \<Rightarrow> inboxEntry list" where
  "prevInbox st team agentName =
     (case teamsState st team of
        None \<Rightarrow> []
      | Some t \<Rightarrow> (case t_inboxes t agentName of None \<Rightarrow> [] | Some ms \<Rightarrow> ms))"

definition curInbox :: "host \<Rightarrow> jsstring \<Rightarrow> jsstring \<Rightarrow> inboxEntry list" where
  "curInbox h team agentName =
     (case readTeamInboxes h team agentName of None \<Rightarrow> [] | Some ms \<Rightarrow> ms)"

text \<open>The handler that runs 200 ms after the last change notification for \<open>filename\<close>
  under the teams directory.\<close>

definition teamsChanged :: "host \<Rightarrow> env \<Rightarrow> jsstring \<Rightarrow> state \<Rightarrow> outcome" where
  "teamsChanged h env filename st =
     (let parts = splitOn 47 (backslashToSlash filename);
          team = (case parts of [] \<Rightarrow> [] | p # _ \<Rightarrow> p)
      in if team = [] then Completed st
         else
           (case readTeamConfig h team of
              None \<Rightarrow> Completed st
            | Some config \<Rightarrow>
                (let st1 = st\<lparr>teamsState := (teamsState st)(team \<mapsto>
                              \<lparr>t_config = config, t_inboxes = readTeamInboxes h team\<rparr>)\<rparr>;
                     st2 = foldl (registerMember (now env) team) st1
                             (case tc_members config of None \<Rightarrow> [] | Some ms \<Rightarrow> ms)
                 in if partAt parts 1 = Some (js ''config.json'')
                    then Completed (st2\<lparr>sent := sent st2 @ [Team_update team config]\<rparr>)
                    else if partAt parts 1 = Some (js ''inboxes'') \<and> truthy (partAt parts 2)
                    then
                      (let agentName = basenameJson h (the (partAt parts 2));
                           messages = curInbox h team agentName;
                           prevMessages = prevInbox st team agentName;
                           newMessages = drop (length prevMessages) messages
                       in if length newMessages > 0
                          then visualMessages h env team agentName 0 newMessages
                                 (st2\<lparr>sent := sent st2 @
                                    [Inbox_update team agentName newMessages (length messages)]\<rparr>)
                          else Completed st2)
                    else Completed st2)))"

text \<open>The inbox updates among a list of broadcasts, and the broadcasts a handler run
  has added.\<close>

fun isInboxUpdate :: "broadcast \<Rightarrow> bool" where
  "isInboxUpdate (Inbox_update _ _ _ _) = True"
| "isInboxUpdate _ = False"

definition newlySent :: "state \<Rightarrow> state \<Rightarrow> broadcast list" where
  "newlySent before after = drop (length (sent before)) (sent after)"

section \<open>Event log watcher\<close>

text \<open>
  What the handlers of the log file read from outside the state: the size that
  \<open>statSync\<close> reports when the change notification arrives (\<open>None\<close> when it throws,
  which the handler swallows), the bytes of the file as the read stream finds them (the
  stream is opened with a start offset and no end, and is read after the handler has
  returned), the UTF-8 decoding of the stream, \<open>JSON.parse\<close> of a line, and the clock
  and identifiers of the \<open>i\<close>-th line.

  \<open>JSON.parse\<close> throws (\<open>None\<close>), or gives \<open>null\<close>, on which the first field read of
  \<open>processEvent\<close> throws, or gives another value, whose fields are those of a raw
  event (a number, a string or a boolean has none of them).
\<close>

datatype parsed = JsonNull | JsonValue rawEvt

record logHost =
  statSize :: "nat option"
  fileAtRead :: "nat list"
  utf8Decode :: "nat list \<Rightarrow> jsstring"
  jsonParse :: "jsstring \<Rightarrow> parsed option"
  lineEnv :: "nat \<Rightarrow> env"

text \<open>The loop over the lines: \<open>try { processEvent(JSON.parse(line)) } catch {}\<close>. The
  \<open>catch\<close> also takes what \<open>processEvent\<close> throws, and the loop goes on from the state
  that the throw left.\<close>

fun processLines :: "logHost \<Rightarrow> nat \<Rightarrow> jsstring list \<Rightarrow> state \<Rightarrow> state" where
  "processLines h i [] st = st"
| "processLines h i (line # rest) st =
     (case jsonParse h line of
        None \<Rightarrow> processLines h (Suc i) rest st
      | Some JsonNull \<Rightarrow> processLines h (Suc i) rest st
      | Some (JsonValue r) \<Rightarrow>
          processLines h (Suc i) rest (stateOf (processRawEvent (lineEnv h i) r st)))"

definition linesOf :: "jsstring \<Rightarrow> jsstring list" where
  "linesOf buffer = filter (\<lambda>l. l \<noteq> []) (splitOn newline buffer)"

text \<open>
  The change notification. It takes the size of the file and, when the file has grown,
  opens a stream from the stored offset; the stored offset is not changed then. The
  stream that was opened is described by its start offset and by the size that was taken.
\<close>

record pendingRead =
  rd_start :: nat
  rd_size :: nat

definition eventsFileNotified :: "logHost \<Rightarrow> state \<Rightarrow> state \<times> pendingRead option" where
  "eventsFileNotified h st =
     (case statSize h of
        None \<Rightarrow> (st, None)
      | Some newSize \<Rightarrow>
          if newSize \<le> eventsFileSize st then (st\<lparr>eventsFileSize := newSize\<rparr>, None)
          else (st, Some \<lparr>rd_start = eventsFileSize st, rd_size = newSize\<rparr>))"

text \<open>The \<open>end\<close> callback of the stream, which has read the file from its start offset
  to the end of the file. It stores the size taken at the notification and processes the
  lines.\<close>

definition bytesRead :: "logHost \<Rightarrow> pendingRead \<Rightarrow> nat list" where
  "bytesRead h rd = drop (rd_start rd) (fileAtRead h)"

definition streamEnded :: "logHost \<Rightarrow> pendingRead \<Rightarrow> state \<Rightarrow> state" where
  "streamEnded h rd st =
     (let buffer = utf8Decode h (bytesRead h rd);
          st1 = st\<lparr>eventsFileSize := rd_size rd\<rparr>
      in processLines h 0 (linesOf buffer) st1)"

text \<open>A notification whose stream ends before another handler runs.\<close>

definition eventsFileChanged :: "logHost \<Rightarrow> state \<Rightarrow> state" where
  "eventsFileChanged h st =
     (case eventsFileNotified h st of
        (st1, None) \<Rightarrow> st1
      | (st1, Some rd) \<Rightarrow> streamEnded h rd st1)"

text \<open>The byte range \<open>[lo, hi)\<close> of a file.\<close>

definition byteRange :: "nat \<Rightarrow> nat \<Rightarrow> nat list \<Rightarrow> nat list" where
  "byteRange lo hi bytes = take (hi - lo) (drop lo bytes)"

section \<open>Ring buffers\<close>

definition withinCapacity :: "state \<Rightarrow> bool" where
  "withinCapacity st =
     (length (recentEvents st) \<le> MAX_EVENTS \<and> length (recentMessages st) \<le> MAX_MESSAGES)"

section \<open>Observations on a run of \<open>processEvent\<close>\<close>

text \<open>The agent of the event after the run, and what its record held before: an agent
  that was not known yet starts from the values of a new record.\<close>

definition agentAfter :: "env \<Rightarrow> evt \<Rightarrow> state \<Rightarrow> agent" where
  "agentAfter env e st = the (knownAgents (processEvent env e st) (sessionIdOf e))"

definition statusBefore :: "state \<Rightarrow> jsstring \<Rightarrow> status" where
  "statusBefore st sid = (case knownAgents st sid of None \<Rightarrow> Idle | Some a \<Rightarrow> status a)"

definition stampBefore :: "state \<Rightarrow> jsstring \<Rightarrow> int option" where
  "stampBefore st sid = (case knownAgents st sid of None \<Rightarrow> None | Some a \<Rightarrow> statusSetAt a)"

text \<open>The counters of an agent in a state, \<open>0\<close> for an agent that is not known, and the
  condition that they hold numbers: values that rounding leaves as they are.\<close>

definition tokensOf :: "state \<Rightarrow> jsstring \<Rightarrow> int" where
  "tokensOf st sid = (case knownAgents st sid of None \<Rightarrow> 0 | Some a \<Rightarrow> tokens a)"

definition toolCallsOf :: "state \<Rightarrow> jsstring \<Rightarrow> nat" where
  "toolCallsOf st sid = (case knownAgents st sid of None \<Rightarrow> 0 | Some a \<Rightarrow> toolCalls a)"

definition storedAsNumbers :: "state \<Rightarrow> jsstring \<Rightarrow> bool" where
  "storedAsNumbers st sid =
     (roundDouble (tokensOf st sid) = tokensOf st sid
      \<and> roundNat (toolCallsOf st sid) = toolCallsOf st sid)"

text \<open>The state of a run when the task matcher is reached: the agent is registered and
  a delegation has been queued.\<close>

definition midState :: "env \<Rightarrow> evt \<Rightarrow> state \<Rightarrow> state" where
  "midState env e st =
     (let st1 = snd (getOrCreateAgent (now env) (sessionIdOf e) (hintsOf e) st);
          agent1 = updateAgent env e (fst (getOrCreateAgent (now env) (sessionIdOf e) (hintsOf e) st))
      in if isDelegation e
         then st1\<lparr>pendingTasks := pendingTasks st1 @ [delegationPending env e agent1]\<rparr>
         else st1)"

text \<open>A run of the server over a list of events, each with its clock and identifiers.\<close>

definition processAll :: "(env \<times> evt) list \<Rightarrow> state \<Rightarrow> state" where
  "processAll es st = foldl (\<lambda>s p. processEvent (fst p) (snd p) s) st es"

text \<open>A run over raw events, where what an event throws is swallowed as the log watcher
  does.\<close>

definition processAllRaw :: "(env \<times> rawEvt) list \<Rightarrow> state \<Rightarrow> state" where
  "processAllRaw es st = foldl (\<lambda>s p. stateOf (processRawEvent (fst p) (snd p) s)) st es"

text \<open>Whether the run of a raw event reaches \<open>agent.toolCalls++\<close>, and whether it
  reaches \<open>agent.tokens += estimatedTokens\<close>.\<close>

definition countsCall :: "rawEvt \<Rightarrow> bool" where
  "countsCall r =
     (case abortPoint r of
        Some BeforeAgent \<Rightarrow> False
      | Some InActivity \<Rightarrow> False
      | _ \<Rightarrow> True)"


definition emptyEvt :: evt where
  "emptyEvt =
     \<lparr>e_session_id = None, e_sessionId = None, e_hook_event_name = None, e_event = None,
      e_type = None, e_tool_name = None, e_tool = None, e_tool_input = None,
      e_tool_response = None, e_cwd = None, e_working_directory = None, e_model = None,
      e_source = None, e_tokens = None\<rparr>"

definition noHints :: hints where
  "noHints = \<lparr>h_label = None, h_role = None, h_cwd = None\<rparr>"

definition envAt :: "int \<Rightarrow> env" where
  "envAt t = \<lparr>now = t, msgId = js ''m'', recId = js ''r''\<rparr>"

text \<open>Sample events.\<close>

definition readEvt :: evt where
  "readEvt = emptyEvt\<lparr>e_session_id := Some (js ''s1''), e_event := Some (js ''pre_tool''),
     e_tool_name := Some (js ''Read'')\<rparr>"

definition postEvt :: evt where
  "postEvt = emptyEvt\<lparr>e_session_id := Some (js ''s1''), e_event := Some (js ''post_tool''),
     e_tool_name := Some (js ''Read'')\<rparr>"

definition kindEvt :: "string \<Rightarrow> evt" where
  "kindEvt k = emptyEvt\<lparr>e_session_id := Some (js ''s1''), e_event := Some (js k)\<rparr>"


definition testPaths :: "jsstring list" where
  "testPaths = map js [''a.test.js'', ''b.test.js'', ''c.test.js'', ''d.config'']"

definition testEvt :: evt where
  "testEvt = emptyEvt\<lparr>e_session_id := Some (js ''w1''), e_event := Some (js ''pre_tool''),
     e_tool_name := Some (js ''Read''),
     e_tool_input := Some (emptyInput\<lparr>ti_file_path := Some (js ''tests/a.test.js'')\<rparr>)\<rparr>"

definition emptyRaw :: rawEvt where
  "emptyRaw =
     \<lparr>rw_session_id = Missing, rw_sessionId = Missing, rw_hook_event_name = None,
      rw_event = None, rw_type = None, rw_tool_name = None, rw_tool = None,
      rw_tool_input = None, rw_tool_response = None, rw_cwd = None,
      rw_working_directory = None, rw_model = Missing, rw_source = None, rw_tokens = None\<rparr>"

text \<open>The events \<open>{"model": 5}\<close>, \<open>{"tool_input": {"file_path": 5}, "tokens": 7}\<close> and
  \<open>{"tokens": 7}\<close>.\<close>

definition modelFive :: rawEvt where
  "modelFive = emptyRaw\<lparr>rw_model := NotText\<rparr>"

definition pathFive :: rawEvt where
  "pathFive = emptyRaw\<lparr>rw_tool_input := Some (emptyRawInput\<lparr>ri_file_path := NotText\<rparr>),
     rw_tokens := Some 7\<rparr>"

definition sevenTokens :: rawEvt where
  "sevenTokens = emptyRaw\<lparr>rw_tokens := Some 7\<rparr>"

text \<open>The state after a team member named \<open>"Agent Smith"\<close> has been registered under the
  id \<open>w1\<close>.\<close>

definition smithState :: state where
  "smithState =
     snd (getOrCreateAgent 0 (js ''w1'') (noHints\<lparr>h_label := Some (js ''Agent Smith'')\<rparr>)
            initialState)"

text \<open>Two delegations by agent \<open>a\<close>, one second apart, and the start of session \<open>b\<close>
  one second later.\<close>

definition taskEvt :: "string \<Rightarrow> evt" where
  "taskEvt d = emptyEvt\<lparr>e_session_id := Some (js ''a''), e_event := Some (js ''pre_tool''),
     e_tool_name := Some (js ''Task''),
     e_tool_input := Some (emptyInput\<lparr>ti_description := Some (js d)\<rparr>)\<rparr>"

definition startEvt :: evt where
  "startEvt = emptyEvt\<lparr>e_session_id := Some (js ''b''), e_event := Some (js ''session_start'')\<rparr>"

definition twoTasks :: state where
  "twoTasks = processAll [(envAt 1000, taskEvt ''first job''), (envAt 2000, taskEvt ''second job'')]
                initialState"

text \<open>A sample team directory: the team \<open>t\<close> has no members, and the inbox of \<open>bob\<close>
  held one entry at the last snapshot and holds three now.\<close>

definition entry :: "string \<Rightarrow> string \<Rightarrow> inboxEntry" where
  "entry sender body = \<lparr>i_from = Some (js sender), i_text = Some (js body)\<rparr>"

definition dropJsonSuffix :: "jsstring \<Rightarrow> jsstring" where
  "dropJsonSuffix p =
     (if p = js ''.json'' then []
      else if 5 \<le> length p \<and> drop (length p - 5) p = js ''.json'' then take (length p - 5) p
      else p)"

definition sampleHost :: host where
  "sampleHost =
     \<lparr>readTeamConfig = (\<lambda>team. if team = js ''t'' then Some \<lparr>tc_members = None\<rparr> else None),
      readTeamInboxes = (\<lambda>team. [js ''bob'' \<mapsto>
                           [entry ''al'' ''one'', entry ''al'' ''two'', entry ''cy'' ''three'']]),
      basenameJson = dropJsonSuffix,
      visualId = (\<lambda>i. js ''v'')\<rparr>"

definition snapshotState :: state where
  "snapshotState =
     initialState\<lparr>teamsState := [js ''t'' \<mapsto>
        \<lparr>t_config = \<lparr>tc_members = None\<rparr>, t_inboxes = [js ''bob'' \<mapsto> [entry ''al'' ''one'']]\<rparr>]\<rparr>"

text \<open>A sample log of two lines of 3 bytes each. At the first notification \<open>statSync\<close>
  reports 3 bytes, and the second line has been written by the time the stream reads the
  file; at the notification for the second line the size is 6.\<close>

definition growingLog :: logHost where
  "growingLog =
     \<lparr>statSize = Some 3,
      fileAtRead = [123, 125, 10, 123, 125, 10],
      utf8Decode = (\<lambda>bytes. bytes),
      jsonParse = (\<lambda>line. if line = js ''{}'' then Some (JsonValue emptyRaw) else None),
      lineEnv = (\<lambda>i. envAt (int i))\<rparr>"

definition caughtUpLog :: logHost where
  "caughtUpLog = growingLog\<lparr>statSize := Some 6\<rparr>"

text \<open>A log with a malformed line between two events, fully written when its size is
  taken.\<close>

definition settledLog :: logHost where
  "settledLog =
     \<lparr>statSize = Some 10,
      fileAtRead = [123, 125, 10, 110, 111, 33, 10, 123, 125, 10],
      utf8Decode = (\<lambda>bytes. bytes),
      jsonParse = (\<lambda>line. if line = js ''{}'' then Some (JsonValue emptyRaw) else None),
      lineEnv = (\<lambda>i. envAt (int i))\<rparr>"

section \<open>Properties of number rounding\<close>

lemma ulpExp_small: "n < 2 ^ 53 \<Longrightarrow> ulpExp n = 0"
  by (simp add: ulpExp.simps)

lemma ulpExp_large: "\<not> n < 2 ^ 53 \<Longrightarrow> ulpExp n = Suc (ulpExp (n div 2))"
  by (subst ulpExp.simps) simp



lemma ulpExp_pos: "2 ^ 53 \<le> n \<Longrightarrow> 0 < ulpExp n"
  by (simp add: ulpExp_large)


lemma ulpExp_unique:
  "n div 2 ^ j < 2 ^ 53 \<Longrightarrow> j = 0 \<or> 2 ^ 52 \<le> n div 2 ^ j \<Longrightarrow> ulpExp n = j"
proof (induction j arbitrary: n)
  case 0
  then show ?case by (simp add: ulpExp_small)
next
  case (Suc j)
  have d: "n div 2 ^ Suc j = (n div 2) div 2 ^ j" by (simp add: div_mult2_eq)
  have low: "2 ^ 52 \<le> n div 2 ^ Suc j" using Suc.prems by simp
  have "2 ^ 52 * 2 ^ Suc j \<le> (n div 2 ^ Suc j) * 2 ^ Suc j"
    using low by (rule mult_le_mono1)
  also have "\<dots> \<le> n" by (rule div_times_less_eq_dividend)
  finally have "2 ^ 52 * 2 ^ Suc j \<le> n" .
  moreover have "(2::nat) ^ 53 \<le> 2 ^ 52 * 2 ^ Suc j" by simp
  ultimately have nl: "\<not> n < 2 ^ 53" by linarith
  have u: "(n div 2) div 2 ^ j < 2 ^ 53" using Suc.prems(1) unfolding d .
  have l: "j = 0 \<or> 2 ^ 52 \<le> (n div 2) div 2 ^ j" using low unfolding d by simp
  from Suc.IH [OF u l] have "ulpExp (n div 2) = j" .
  then show ?case using nl by (simp add: ulpExp_large)
qed

lemma roundNat_small: "n < 2 ^ 53 \<Longrightarrow> roundNat n = n"
  by (simp add: roundNat_def ulpExp_small)




lemma roundNat_0: "roundNat 0 = 0"
  by (simp add: roundNat_small)


lemma roundDouble_small: "\<bar>x\<bar> < 2 ^ 53 \<Longrightarrow> roundDouble x = x"
proof -
  assume a: "\<bar>x\<bar> < 2 ^ 53"
  have "nat \<bar>x\<bar> < 2 ^ 53" using a by (simp add: nat_less_iff)
  then have "roundNat (nat \<bar>x\<bar>) = nat \<bar>x\<bar>" by (rule roundNat_small)
  then show ?thesis by (cases "0 \<le> x") (simp_all add: roundDouble_def abs_if)
qed



lemma roundNat_example: "roundNat (2 ^ 53 + 1) = 2 ^ 53"
proof -
  have "ulpExp (2 ^ 53 + 1) = 1"
    by (rule ulpExp_unique) simp_all
  then show ?thesis by (simp add: roundNat_def)
qed

section \<open>Properties of the task summarizer\<close>

lemmas str_eval = js_def trim_def replaceNewlines_def beforeTerminator_def
      is_terminator_def is_ws_def space_def newline_def ellipsis_def

lemma lastIndexOf_none: "c \<notin> set s \<Longrightarrow> lastIndexOf s c = - 1"
proof -
  assume "c \<notin> set s"
  then have "filter (\<lambda>i. s ! i = c) (rev [0..<length s]) = []"
    by (auto simp: filter_empty_conv)
  then show ?thesis by (simp add: lastIndexOf_def)
qed

lemma lastIndexOf_some:
  assumes "c \<in> set s"
  shows "\<exists>i. lastIndexOf s c = int i \<and> i < length s \<and> s ! i = c
            \<and> (\<forall>j. i < j \<and> j < length s \<longrightarrow> s ! j \<noteq> c)"
proof -
  let ?P = "\<lambda>i. s ! i = c"
  let ?f = "filter ?P [0..<length s]"
  from assms obtain k where k: "k < length s" "s ! k = c"
    by (auto simp: in_set_conv_nth)
  then have ne: "?f \<noteq> []" by (auto simp: filter_empty_conv)
  then obtain ys i where f: "?f = ys @ [i]" by (metis rev_exhaust)
  have "i \<in> set ?f" using f by simp
  then have i: "i < length s" "s ! i = c" by auto
  have srt: "sorted ?f" by (simp add: sorted_wrt_filter)
  have top: "\<forall>j. i < j \<and> j < length s \<longrightarrow> s ! j \<noteq> c"
  proof (intro allI impI notI)
    fix j assume j: "i < j \<and> j < length s" and "s ! j = c"
    then have "j \<in> set ?f" by auto
    then have "j \<in> set ys \<or> j = i" using f by auto
    moreover have "\<forall>y\<in>set ys. y \<le> i" using srt f by (simp add: sorted_append)
    ultimately show False using j by auto
  qed
  have "filter ?P (rev [0..<length s]) = i # rev ys"
    using f by (simp add: rev_filter [symmetric])
  then have "lastIndexOf s c = int i" by (simp add: lastIndexOf_def)
  with i top show ?thesis by blast
qed

lemma firstClause_longWord: "firstClause longWord = longWord"
  by (simp add: firstClause_def longWord_def str_eval)

text \<open>
  C3, as stated, at a concrete input: the first clause of \<open>longWord\<close> is one word of 53
  characters with no space, and \<open>summarizeTask\<close> returns its first 40 characters followed
  by the ellipsis, so the cut falls inside the word.
\<close>

theorem summarizeTask_splits_word:
  "32 < length (firstClause longWord) \<and> cutsInsideWord (firstClause longWord) 40
   \<and> summarizeTask longWord = take 40 (firstClause longWord) @ [ellipsis]"
  unfolding summarizeTask_def firstClause_longWord
  by (simp add: longWord_def cutsInsideWord_def lastIndexOf_def str_eval)

text \<open>
  C3, amended: a first clause of at most 32 characters is returned verbatim. A longer one
  is cut to its first 40 characters; when a space lies among them beyond index 15, the
  result is the clause up to the last such space (a word boundary, so no word is split),
  otherwise it is the first 40 characters kept whole. In both cases the ellipsis is
  appended.
\<close>

theorem summarizeTask_cases:
  "(length (firstClause t) \<le> 32 \<longrightarrow> summarizeTask t = firstClause t) \<and>
   (32 < length (firstClause t) \<longrightarrow>
      (\<exists>n. summarizeTask t = take n (firstClause t) @ [ellipsis] \<and>
         (if \<exists>i. 15 < i \<and> i < 40 \<and> i < length (firstClause t) \<and> firstClause t ! i = space
          then 15 < n \<and> n < 40 \<and> firstClause t ! n = space
               \<and> (\<forall>j. n < j \<and> j < 40 \<and> j < length (firstClause t) \<longrightarrow> firstClause t ! j \<noteq> space)
               \<and> \<not> cutsInsideWord (firstClause t) n
          else n = 40)))"
proof -
  define first where "first = firstClause t"
  define truncated where "truncated = take 40 first"
  have short: "length first \<le> 32 \<Longrightarrow> summarizeTask t = first"
    by (simp add: summarizeTask_def first_def)
  have long: "\<exists>n. summarizeTask t = take n first @ [ellipsis] \<and>
         (if \<exists>i. 15 < i \<and> i < 40 \<and> i < length first \<and> first ! i = space
          then 15 < n \<and> n < 40 \<and> first ! n = space
               \<and> (\<forall>j. n < j \<and> j < 40 \<and> j < length first \<longrightarrow> first ! j \<noteq> space)
               \<and> \<not> cutsInsideWord first n
          else n = 40)" if len: "32 < length first"
  proof (cases "space \<in> set truncated")
    case False
    then have li: "lastIndexOf truncated space = - 1" by (rule lastIndexOf_none)
    have nospace: "\<not> (\<exists>i. 15 < i \<and> i < 40 \<and> i < length first \<and> first ! i = space)"
    proof
      assume "\<exists>i. 15 < i \<and> i < 40 \<and> i < length first \<and> first ! i = space"
      then obtain i where i: "i < 40" "i < length first" "first ! i = space" by blast
      then have "truncated ! i = space" "i < length truncated" by (simp_all add: truncated_def)
      then have "space \<in> set truncated" by (metis nth_mem)
      with False show False by simp
    qed
    have "summarizeTask t = take 40 first @ [ellipsis]"
      using len li by (simp add: summarizeTask_def first_def [symmetric] truncated_def [symmetric] Let_def)
    with nospace show ?thesis by auto
  next
    case True
    from lastIndexOf_some [OF True] obtain i where
      i: "lastIndexOf truncated space = int i" "i < length truncated" "truncated ! i = space"
         "\<forall>j. i < j \<and> j < length truncated \<longrightarrow> truncated ! j \<noteq> space" by blast
    have i40: "i < 40" "i < length first" using i(2) by (simp_all add: truncated_def)
    have fi: "first ! i = space" using i(3) i40 by (simp add: truncated_def)
    have above: "\<forall>j. i < j \<and> j < 40 \<and> j < length first \<longrightarrow> first ! j \<noteq> space"
      using i(4) by (simp add: truncated_def)
    show ?thesis
    proof (cases "15 < i")
      case True
      have tk: "take i truncated = take i first" using i40 by (simp add: truncated_def min_def)
      have res: "summarizeTask t = take i first @ [ellipsis]"
        using len i(1) True tk
        by (simp add: summarizeTask_def first_def [symmetric] truncated_def [symmetric] Let_def)
      have nocut: "\<not> cutsInsideWord first i"
        using fi by (simp add: cutsInsideWord_def is_ws_def space_def)
      have ex: "\<exists>i. 15 < i \<and> i < 40 \<and> i < length first \<and> first ! i = space"
        using True i40 fi by blast
      show ?thesis using res True i40 fi above nocut ex by auto
    next
      case False
      have res: "summarizeTask t = take 40 first @ [ellipsis]"
        using len i(1) False
        by (simp add: summarizeTask_def first_def [symmetric] truncated_def [symmetric] Let_def)
      have nospace: "\<not> (\<exists>k. 15 < k \<and> k < 40 \<and> k < length first \<and> first ! k = space)"
      proof
        assume "\<exists>k. 15 < k \<and> k < 40 \<and> k < length first \<and> first ! k = space"
        then obtain k where k: "15 < k" "k < 40" "k < length first" "first ! k = space" by blast
        with False have "i < k" by simp
        with above k show False by blast
      qed
      with res show ?thesis by auto
    qed
  qed
  show ?thesis using short long unfolding first_def by blast
qed

theorem summarizeTask_cases_witness:
  "summarizeTask (js ''  Fix   the bug. Then more'') = js ''Fix the bug'' \<and>
   (\<exists>n. 15 < n \<and> n < 40 \<and>
        summarizeTask (js ''Refactor the API layer to use async handlers'')
          = take n (js ''Refactor the API layer to use async handlers'') @ [ellipsis])"
proof -
  have a: "firstClause (js ''  Fix   the bug. Then more'') = js ''Fix the bug''"
    by (simp add: firstClause_def str_eval)
  have b: "firstClause (js ''Refactor the API layer to use async handlers'')
            = js ''Refactor the API layer to use async handlers''"
    by (simp add: firstClause_def str_eval)
  have la: "length (js ''Fix the bug'') \<le> 32" by (simp add: js_def)
  have lb: "32 < length (js ''Refactor the API layer to use async handlers'')"
    by (simp add: js_def)
  have ex: "\<exists>i. 15 < i \<and> i < 40
     \<and> i < length (js ''Refactor the API layer to use async handlers'')
     \<and> js ''Refactor the API layer to use async handlers'' ! i = space"
    by (rule exI [of _ 29]) (simp add: js_def space_def)
  from summarizeTask_cases [of "js ''  Fix   the bug. Then more''"] a la
  have 1: "summarizeTask (js ''  Fix   the bug. Then more'') = js ''Fix the bug''" by simp
  from summarizeTask_cases [of "js ''Refactor the API layer to use async handlers''"] b lb ex
  have 2: "\<exists>n. 15 < n \<and> n < 40 \<and>
        summarizeTask (js ''Refactor the API layer to use async handlers'')
          = take n (js ''Refactor the API layer to use async handlers'') @ [ellipsis]"
    by auto
  from 1 2 show ?thesis by blast
qed

section \<open>Properties of the agent registry\<close>

lemma placeholder_startsWith: "startsWith (placeholderLabel sid) (js ''Agent '')"
  by (simp add: startsWith_def placeholderLabel_def)

lemma length_PALETTE: "length PALETTE = 20"
  by (simp add: PALETTE_def)


lemma getOrCreateAgent_new:
  "knownAgents st sid = None \<Longrightarrow>
   getOrCreateAgent t sid extra st =
     (newAgent t sid extra (PALETTE ! (colorIndex st mod length PALETTE)),
      st\<lparr>knownAgents := (knownAgents st)(sid \<mapsto>
             newAgent t sid extra (PALETTE ! (colorIndex st mod length PALETTE))),
         colorIndex := colorIndex st + 1,
         sent := sent st @ [Agent_join
             (newAgent t sid extra (PALETTE ! (colorIndex st mod length PALETTE)))]\<rparr>)"
  by (simp add: getOrCreateAgent_def Let_def)

lemma getOrCreateAgent_known:
  "knownAgents st sid = Some existing \<Longrightarrow>
   getOrCreateAgent t sid extra st =
     (applyHints extra existing,
      st\<lparr>knownAgents := (knownAgents st)(sid \<mapsto> applyHints extra existing)\<rparr>)"
  by (simp add: getOrCreateAgent_def Let_def)

lemma applyHints_label:
  "label (applyHints extra a)
     = (if truthy (h_label extra) \<and> startsWith (label a) (js ''Agent '')
        then the (h_label extra) else label a)"
  by (auto simp: applyHints_def Let_def)

lemma applyHints_role:
  "role (applyHints extra a)
     = (if truthy (h_role extra) \<and> role a = js ''worker'' then the (h_role extra) else role a)"
  by (auto simp: applyHints_def Let_def)

lemma applyHints_eq:
  "applyHints extra a = a\<lparr>label := label (applyHints extra a), role := role (applyHints extra a)\<rparr>"
  by (simp add: applyHints_def Let_def)

text \<open>
  C5, as stated, at a concrete input: an agent created with the hinted label
  \<open>"Agent Smith"\<close> does not carry the placeholder of its id, and a later call with
  another hinted label overwrites it all the same, because the label starts with
  \<open>"Agent "\<close>.
\<close>

theorem getOrCreateAgent_overwrites_hinted_label:
  "label (fst (getOrCreateAgent 0 (js ''s1'') (noHints\<lparr>h_label := Some (js ''Agent Smith'')\<rparr>)
                initialState)) = js ''Agent Smith''
   \<and> js ''Agent Smith'' \<noteq> placeholderLabel (js ''s1'')
   \<and> label (fst (getOrCreateAgent 1 (js ''s1'') (noHints\<lparr>h_label := Some (js ''opus s1'')\<rparr>)
        (snd (getOrCreateAgent 0 (js ''s1'') (noHints\<lparr>h_label := Some (js ''Agent Smith'')\<rparr>)
                initialState)))) = js ''opus s1''"
  by (simp add: getOrCreateAgent_def initialState_def noHints_def newAgent_def applyHints_def
      js_or_str_def js_or_def startsWith_def placeholderLabel_def js_def Let_def)

text \<open>
  C5, amended: for an unseen id \<open>getOrCreateAgent\<close> stores one new record, with the
  label from the hints or the placeholder \<open>"Agent "\<close> followed by the first 8 characters of
  the id, the role from the hints or \<open>"worker"\<close>, the palette colour at the colour index
  modulo 20, status idle, and sends one \<open>agent_join\<close>. For a known id it overwrites the
  label only if the hinted label is not empty and the current label starts with
  \<open>"Agent "\<close> (as every placeholder does), overwrites the role only if the current role is
  \<open>"worker"\<close>, changes nothing else of the record, sends nothing, and returns the stored
  record.
\<close>

theorem getOrCreateAgent_spec:
  "(knownAgents st sid = None \<longrightarrow>
      label (fst (getOrCreateAgent t sid extra st))
        = (if truthy (h_label extra) then the (h_label extra) else js ''Agent '' @ take 8 sid)
      \<and> role (fst (getOrCreateAgent t sid extra st))
        = (if truthy (h_role extra) then the (h_role extra) else js ''worker'')
      \<and> color (fst (getOrCreateAgent t sid extra st)) = PALETTE ! (colorIndex st mod 20)
      \<and> status (fst (getOrCreateAgent t sid extra st)) = Idle
      \<and> colorIndex (snd (getOrCreateAgent t sid extra st)) = colorIndex st + 1
      \<and> knownAgents (snd (getOrCreateAgent t sid extra st))
        = (knownAgents st)(sid \<mapsto> fst (getOrCreateAgent t sid extra st))
      \<and> sent (snd (getOrCreateAgent t sid extra st))
        = sent st @ [Agent_join (fst (getOrCreateAgent t sid extra st))])
   \<and> (\<forall>existing. knownAgents st sid = Some existing \<longrightarrow>
      label (fst (getOrCreateAgent t sid extra st))
        = (if truthy (h_label extra) \<and> startsWith (label existing) (js ''Agent '')
           then the (h_label extra) else label existing)
      \<and> role (fst (getOrCreateAgent t sid extra st))
        = (if truthy (h_role extra) \<and> role existing = js ''worker''
           then the (h_role extra) else role existing)
      \<and> fst (getOrCreateAgent t sid extra st)
        = existing\<lparr>label := label (fst (getOrCreateAgent t sid extra st)),
                   role := role (fst (getOrCreateAgent t sid extra st))\<rparr>
      \<and> colorIndex (snd (getOrCreateAgent t sid extra st)) = colorIndex st
      \<and> knownAgents (snd (getOrCreateAgent t sid extra st))
        = (knownAgents st)(sid \<mapsto> fst (getOrCreateAgent t sid extra st))
      \<and> sent (snd (getOrCreateAgent t sid extra st)) = sent st)
   \<and> startsWith (js ''Agent '' @ take 8 sid) (js ''Agent '')"
proof (intro conjI impI allI)
  assume n: "knownAgents st sid = None"
  show "label (fst (getOrCreateAgent t sid extra st))
        = (if truthy (h_label extra) then the (h_label extra) else js ''Agent '' @ take 8 sid)"
    using n by (simp add: getOrCreateAgent_new newAgent_def js_or_str_def placeholderLabel_def)
  show "role (fst (getOrCreateAgent t sid extra st))
        = (if truthy (h_role extra) then the (h_role extra) else js ''worker'')"
    using n by (simp add: getOrCreateAgent_new newAgent_def js_or_str_def)
  show "color (fst (getOrCreateAgent t sid extra st)) = PALETTE ! (colorIndex st mod 20)"
    using n by (simp add: getOrCreateAgent_new newAgent_def length_PALETTE)
  show "status (fst (getOrCreateAgent t sid extra st)) = Idle"
    using n by (simp add: getOrCreateAgent_new newAgent_def)
  show "colorIndex (snd (getOrCreateAgent t sid extra st)) = colorIndex st + 1"
    using n by (simp add: getOrCreateAgent_new)
  show "knownAgents (snd (getOrCreateAgent t sid extra st))
        = (knownAgents st)(sid \<mapsto> fst (getOrCreateAgent t sid extra st))"
    using n by (simp add: getOrCreateAgent_new)
  show "sent (snd (getOrCreateAgent t sid extra st))
        = sent st @ [Agent_join (fst (getOrCreateAgent t sid extra st))]"
    using n by (simp add: getOrCreateAgent_new)
next
  fix existing assume s: "knownAgents st sid = Some existing"
  show "label (fst (getOrCreateAgent t sid extra st))
        = (if truthy (h_label extra) \<and> startsWith (label existing) (js ''Agent '')
           then the (h_label extra) else label existing)"
    using s by (simp add: getOrCreateAgent_known applyHints_label)
  show "role (fst (getOrCreateAgent t sid extra st))
        = (if truthy (h_role extra) \<and> role existing = js ''worker''
           then the (h_role extra) else role existing)"
    using s by (simp add: getOrCreateAgent_known applyHints_role)
  show "fst (getOrCreateAgent t sid extra st)
        = existing\<lparr>label := label (fst (getOrCreateAgent t sid extra st)),
                   role := role (fst (getOrCreateAgent t sid extra st))\<rparr>"
    using s by (simp add: getOrCreateAgent_known) (rule applyHints_eq)
  show "colorIndex (snd (getOrCreateAgent t sid extra st)) = colorIndex st"
    using s by (simp add: getOrCreateAgent_known)
  show "knownAgents (snd (getOrCreateAgent t sid extra st))
        = (knownAgents st)(sid \<mapsto> fst (getOrCreateAgent t sid extra st))"
    using s by (simp add: getOrCreateAgent_known)
  show "sent (snd (getOrCreateAgent t sid extra st)) = sent st"
    using s by (simp add: getOrCreateAgent_known)
next
  show "startsWith (js ''Agent '' @ take 8 sid) (js ''Agent '')"
    by (simp add: startsWith_def)
qed

theorem getOrCreateAgent_spec_witness:
  "label (fst (getOrCreateAgent 0 (js ''0123456789'') noHints initialState)) = js ''Agent 01234567''
   \<and> color (fst (getOrCreateAgent 0 (js ''0123456789'') noHints initialState)) = js ''#ff6b35''
   \<and> label (fst (getOrCreateAgent 1 (js ''0123456789'') (noHints\<lparr>h_label := Some (js ''opus 012345'')\<rparr>)
        (snd (getOrCreateAgent 0 (js ''0123456789'') noHints initialState)))) = js ''opus 012345''"
proof -
  let ?st1 = "snd (getOrCreateAgent 0 (js ''0123456789'') noHints initialState)"
  have n: "knownAgents initialState (js ''0123456789'') = None"
    by (simp add: initialState_def)
  have c0: "colorIndex initialState = 0" by (simp add: initialState_def)
  from getOrCreateAgent_spec [of initialState "js ''0123456789''" 0 noHints] n
  have a: "label (fst (getOrCreateAgent 0 (js ''0123456789'') noHints initialState))
             = js ''Agent '' @ take 8 (js ''0123456789'')"
    and c: "color (fst (getOrCreateAgent 0 (js ''0123456789'') noHints initialState))
             = PALETTE ! (colorIndex initialState mod 20)"
    and k: "knownAgents ?st1
             = (knownAgents initialState)(js ''0123456789'' \<mapsto>
                  fst (getOrCreateAgent 0 (js ''0123456789'') noHints initialState))"
    by (simp_all add: noHints_def)
  have s: "knownAgents ?st1 (js ''0123456789'')
             = Some (fst (getOrCreateAgent 0 (js ''0123456789'') noHints initialState))"
    using k by simp
  from getOrCreateAgent_spec [of ?st1 "js ''0123456789''" 1
         "noHints\<lparr>h_label := Some (js ''opus 012345'')\<rparr>"] s
  have b: "label (fst (getOrCreateAgent 1 (js ''0123456789'')
                   (noHints\<lparr>h_label := Some (js ''opus 012345'')\<rparr>) ?st1))
           = (if startsWith (label (fst (getOrCreateAgent 0 (js ''0123456789'') noHints initialState)))
                   (js ''Agent '')
              then js ''opus 012345''
              else label (fst (getOrCreateAgent 0 (js ''0123456789'') noHints initialState)))"
    by (simp add: noHints_def js_def)
  have sw: "startsWith (js ''Agent '' @ take 8 (js ''0123456789'')) (js ''Agent '')"
    by (simp add: startsWith_def)
  have a': "js ''Agent '' @ take 8 (js ''0123456789'') = js ''Agent 01234567''"
    by (simp add: js_def)
  have c': "PALETTE ! (colorIndex initialState mod 20) = js ''#ff6b35''"
    by (simp add: c0 PALETTE_def)
  show ?thesis using a b c sw a' c' by simp
qed

section \<open>Properties of event processing\<close>

lemmas kind_defs = isPreTool_def isPostTool_def isStop_def isSessionStart_def
  isSubagentStop_def isTaskDone_def

lemma pre_excl:
  "isPreTool h \<Longrightarrow> \<not> isPostTool h \<and> \<not> isStop h \<and> \<not> isSessionStart h \<and> \<not> isSubagentStop h \<and> \<not> isTaskDone h"
  unfolding isPreTool_def
  by (erule disjE) (simp_all add: isPostTool_def isStop_def isSessionStart_def
      isSubagentStop_def isTaskDone_def js_def)

lemma post_excl:
  "isPostTool h \<Longrightarrow> \<not> isStop h \<and> \<not> isSessionStart h \<and> \<not> isSubagentStop h \<and> \<not> isTaskDone h"
  unfolding isPostTool_def
  by (erule disjE) (simp_all add: isStop_def isSessionStart_def isSubagentStop_def isTaskDone_def js_def)

lemma stop_excl:
  "isStop h \<Longrightarrow> \<not> isSessionStart h \<and> \<not> isSubagentStop h \<and> \<not> isTaskDone h"
  unfolding isStop_def
  by (erule disjE) (simp_all add: isSessionStart_def isSubagentStop_def isTaskDone_def js_def)

lemma start_excl:
  "isSessionStart h \<Longrightarrow> \<not> isSubagentStop h \<and> \<not> isTaskDone h"
  unfolding isSessionStart_def
  by (erule disjE) (simp_all add: isSubagentStop_def isTaskDone_def js_def)

lemma substop_excl:
  "isSubagentStop h \<Longrightarrow> \<not> isTaskDone h"
  unfolding isSubagentStop_def
  by (erule disjE) (simp_all add: isTaskDone_def js_def)

lemma matchPending_fst_fields:
  "status (fst (matchPending env e (a, st))) = status a"
  "statusSetAt (fst (matchPending env e (a, st))) = statusSetAt a"
  "tokens (fst (matchPending env e (a, st))) = tokens a"
  "toolCalls (fst (matchPending env e (a, st))) = toolCalls a"
  by (simp_all add: matchPending_def Let_def split: option.splits)

lemma matchPending_snd_fields:
  "knownAgents (snd (matchPending env e (a, st))) = knownAgents st"
  "colorIndex (snd (matchPending env e (a, st))) = colorIndex st"
  "recentEvents (snd (matchPending env e (a, st))) = recentEvents st"
  "teamsState (snd (matchPending env e (a, st))) = teamsState st"
  "eventsFileSize (snd (matchPending env e (a, st))) = eventsFileSize st"
  by (simp_all add: matchPending_def Let_def split: option.splits)

lemma length_updateFirst: "length (updateFirst P f xs) = length xs"
  by (induction xs) simp_all

lemma matchPending_length_messages:
  "length (recentMessages (snd (matchPending env e (a, st)))) = length (recentMessages st)"
  by (simp add: matchPending_def Let_def length_updateFirst split: option.splits)

lemma updateActivity_fields:
  "status (updateActivity h tool fp a) = status a"
  "statusSetAt (updateActivity h tool fp a) = statusSetAt a"
  "tokens (updateActivity h tool fp a) = tokens a"
  "toolCalls (updateActivity h tool fp a) = toolCalls a"
  by (simp_all add: updateActivity_def Let_def split: option.splits)

lemma touch_fields:
  "status (touch t tool fp a) = status a"
  "statusSetAt (touch t tool fp a) = statusSetAt a"
  "tokens (touch t tool fp a) = tokens a"
  "toolCalls (touch t tool fp a) = roundNat (toolCalls a + 1)"
  by (simp_all add: touch_def)

lemma trackFile_fields:
  "status (trackFile fp a) = status a"
  "statusSetAt (trackFile fp a) = statusSetAt a"
  "tokens (trackFile fp a) = tokens a"
  "toolCalls (trackFile fp a) = toolCalls a"
  by (simp_all add: trackFile_def Let_def split: option.splits)

lemma addTokens_fields:
  "status (addTokens n a) = status a"
  "statusSetAt (addTokens n a) = statusSetAt a"
  "tokens (addTokens n a) = jsAdd (tokens a) n"
  "toolCalls (addTokens n a) = toolCalls a"
  by (simp_all add: addTokens_def)

lemma updateStatus_fields:
  "tokens (updateStatus t h tool a) = tokens a"
  "toolCalls (updateStatus t h tool a) = toolCalls a"
  by (simp_all add: updateStatus_def Let_def)

lemma updateAgent_fields:
  "status (updateAgent env e a) = status (updateStatus (now env) (hookEventOf e) (toolNameOf e) a)"
  "statusSetAt (updateAgent env e a)
     = statusSetAt (updateStatus (now env) (hookEventOf e) (toolNameOf e) a)"
  "tokens (updateAgent env e a) = jsAdd (tokens a) (estimateTokens e)"
  "toolCalls (updateAgent env e a) = roundNat (toolCalls a + 1)"
  by (simp_all add: updateAgent_def addTokens_fields trackFile_fields touch_fields
      updateActivity_fields updateStatus_fields)

lemma agentAfter_eq:
  "agentAfter env e st =
     fst (matchPending env e
       (updateAgent env e (fst (getOrCreateAgent (now env) (sessionIdOf e) (hintsOf e) st)),
        midState env e st))"
  by (simp add: agentAfter_def processEvent_def midState_def Let_def split_def)

lemma getOrCreateAgent_fst_fields:
  "status (fst (getOrCreateAgent t sid extra st)) = statusBefore st sid"
  "statusSetAt (fst (getOrCreateAgent t sid extra st)) = stampBefore st sid"
  "tokens (fst (getOrCreateAgent t sid extra st)) = tokensOf st sid"
  "toolCalls (fst (getOrCreateAgent t sid extra st)) = toolCallsOf st sid"
  by (cases "knownAgents st sid";
      simp add: getOrCreateAgent_def statusBefore_def stampBefore_def tokensOf_def
        toolCallsOf_def newAgent_def applyHints_def Let_def)+

lemma status_agentAfter:
  "status (agentAfter env e st)
     = status (updateStatus (now env) (hookEventOf e) (toolNameOf e)
         (fst (getOrCreateAgent (now env) (sessionIdOf e) (hintsOf e) st)))"
  by (simp add: agentAfter_eq matchPending_fst_fields updateAgent_fields)

lemma stamp_agentAfter:
  "statusSetAt (agentAfter env e st)
     = statusSetAt (updateStatus (now env) (hookEventOf e) (toolNameOf e)
         (fst (getOrCreateAgent (now env) (sessionIdOf e) (hintsOf e) st)))"
  by (simp add: agentAfter_eq matchPending_fst_fields updateAgent_fields)


lemma toolCalls_agentAfter:
  "toolCalls (agentAfter env e st) = roundNat (toolCallsOf st (sessionIdOf e) + 1)"
  by (simp add: agentAfter_eq matchPending_fst_fields updateAgent_fields getOrCreateAgent_fst_fields)

text \<open>
  C1: after an event is processed, the status of its agent is as follows. On a pre-tool
  event it is the active status of the tool name alone (Read, Grep, Glob, ListDir: reading;
  Write, Edit: writing; Task, SendMessage: delegating; anything else: tool_call) and
  \<open>statusSetAt\<close> is the current time. On a post-tool event it is thinking if and only if
  at least 3000 ms have passed since \<open>statusSetAt\<close> (taken as 0 when the agent has no
  stamp), and unchanged otherwise; the stamp is unchanged. On stop, subagent-stop and
  task-done events it is done, on a session-start event starting, and on any other kind it
  is unchanged, which is idle for an agent that was not known.
\<close>

theorem status_state_machine:
  "(isPreTool (hookEventOf e) \<longrightarrow>
      status (agentAfter env e st)
        = (if toolNameOf e = Some (js ''Read'') \<or> toolNameOf e = Some (js ''Grep'')
              \<or> toolNameOf e = Some (js ''Glob'') \<or> toolNameOf e = Some (js ''ListDir'')
           then Reading
           else if toolNameOf e = Some (js ''Write'') \<or> toolNameOf e = Some (js ''Edit'')
           then Writing
           else if toolNameOf e = Some (js ''Task'') \<or> toolNameOf e = Some (js ''SendMessage'')
           then Delegating
           else Tool_call)
      \<and> statusSetAt (agentAfter env e st) = Some (now env))
   \<and> (isPostTool (hookEventOf e) \<longrightarrow>
      status (agentAfter env e st)
        = (if now env - (case stampBefore st (sessionIdOf e) of None \<Rightarrow> 0 | Some s \<Rightarrow> s) \<ge> 3000
           then Thinking else statusBefore st (sessionIdOf e))
      \<and> statusSetAt (agentAfter env e st) = stampBefore st (sessionIdOf e))
   \<and> (isStop (hookEventOf e) \<or> isSubagentStop (hookEventOf e) \<or> isTaskDone (hookEventOf e) \<longrightarrow>
      status (agentAfter env e st) = Done)
   \<and> (isSessionStart (hookEventOf e) \<longrightarrow> status (agentAfter env e st) = Starting)
   \<and> (\<not> isPreTool (hookEventOf e) \<and> \<not> isPostTool (hookEventOf e) \<and> \<not> isStop (hookEventOf e)
       \<and> \<not> isSessionStart (hookEventOf e) \<and> \<not> isSubagentStop (hookEventOf e)
       \<and> \<not> isTaskDone (hookEventOf e) \<longrightarrow>
      status (agentAfter env e st) = statusBefore st (sessionIdOf e))"
proof (intro conjI impI)
  let ?a0 = "fst (getOrCreateAgent (now env) (sessionIdOf e) (hintsOf e) st)"
  note sa = status_agentAfter [of env e st] stamp_agentAfter [of env e st]
  {
    assume pre: "isPreTool (hookEventOf e)"
    show "status (agentAfter env e st)
        = (if toolNameOf e = Some (js ''Read'') \<or> toolNameOf e = Some (js ''Grep'')
              \<or> toolNameOf e = Some (js ''Glob'') \<or> toolNameOf e = Some (js ''ListDir'')
           then Reading
           else if toolNameOf e = Some (js ''Write'') \<or> toolNameOf e = Some (js ''Edit'')
           then Writing
           else if toolNameOf e = Some (js ''Task'') \<or> toolNameOf e = Some (js ''SendMessage'')
           then Delegating
           else Tool_call)"
      using pre by (simp add: sa updateStatus_def activeStatus_def)
    show "statusSetAt (agentAfter env e st) = Some (now env)"
      using pre by (simp add: sa updateStatus_def)
  }
  {
    assume post: "isPostTool (hookEventOf e)"
    then have np: "\<not> isPreTool (hookEventOf e)" using pre_excl by blast
    show "status (agentAfter env e st)
        = (if now env - (case stampBefore st (sessionIdOf e) of None \<Rightarrow> 0 | Some s \<Rightarrow> s) \<ge> 3000
           then Thinking else statusBefore st (sessionIdOf e))"
      using post np
      by (simp add: sa updateStatus_def Let_def STATUS_HOLD_MS_def getOrCreateAgent_fst_fields)
    show "statusSetAt (agentAfter env e st) = stampBefore st (sessionIdOf e)"
      using post np
      by (simp add: sa updateStatus_def Let_def getOrCreateAgent_fst_fields)
  }
  {
    assume d: "isStop (hookEventOf e) \<or> isSubagentStop (hookEventOf e) \<or> isTaskDone (hookEventOf e)"
    then have n: "\<not> isPreTool (hookEventOf e)" "\<not> isPostTool (hookEventOf e)"
      using pre_excl post_excl by blast+
    show "status (agentAfter env e st) = Done"
      using d n start_excl [of "hookEventOf e"] by (auto simp: sa updateStatus_def)
  }
  {
    assume s: "isSessionStart (hookEventOf e)"
    then have n: "\<not> isPreTool (hookEventOf e)" "\<not> isPostTool (hookEventOf e)"
        "\<not> isStop (hookEventOf e)"
      using pre_excl post_excl stop_excl by blast+
    show "status (agentAfter env e st) = Starting"
      using s n by (simp add: sa updateStatus_def)
  }
  {
    assume "\<not> isPreTool (hookEventOf e) \<and> \<not> isPostTool (hookEventOf e) \<and> \<not> isStop (hookEventOf e)
       \<and> \<not> isSessionStart (hookEventOf e) \<and> \<not> isSubagentStop (hookEventOf e)
       \<and> \<not> isTaskDone (hookEventOf e)"
    then show "status (agentAfter env e st) = statusBefore st (sessionIdOf e)"
      by (simp add: sa updateStatus_def getOrCreateAgent_fst_fields)
  }
qed


lemma readEvt_norm:
  "hookEventOf readEvt = js ''pre_tool''" "toolNameOf readEvt = Some (js ''Read'')"
  "sessionIdOf readEvt = js ''s1''"
  by (simp_all add: readEvt_def emptyEvt_def hookEventOf_def toolNameOf_def sessionIdOf_def
      js_or_def js_or_str_def js_def)

lemma postEvt_norm:
  "hookEventOf postEvt = js ''post_tool''" "sessionIdOf postEvt = js ''s1''"
  by (simp_all add: postEvt_def emptyEvt_def hookEventOf_def sessionIdOf_def
      js_or_def js_or_str_def js_def)

lemma kindEvt_norm:
  "k \<noteq> [] \<Longrightarrow> hookEventOf (kindEvt k) = js k" "sessionIdOf (kindEvt k) = js ''s1''"
  by (simp_all add: kindEvt_def emptyEvt_def hookEventOf_def sessionIdOf_def
      js_or_def js_or_str_def js_def)

theorem status_state_machine_witness:
  "status (agentAfter (envAt 1000) readEvt initialState) = Reading
   \<and> statusSetAt (agentAfter (envAt 1000) readEvt initialState) = Some 1000
   \<and> status (agentAfter (envAt 5000) postEvt initialState) = Thinking
   \<and> status (agentAfter (envAt 1000) (kindEvt ''stop'') initialState) = Done
   \<and> status (agentAfter (envAt 1000) (kindEvt ''session_start'') initialState) = Starting
   \<and> status (agentAfter (envAt 1000) (kindEvt ''notification'') initialState) = Idle"
proof -
  have pre: "isPreTool (hookEventOf readEvt)"
    by (simp add: readEvt_norm isPreTool_def)
  have post: "isPostTool (hookEventOf postEvt)"
    by (simp add: postEvt_norm isPostTool_def)
  have n: "now (envAt 1000) = 1000" "now (envAt 5000) = 5000" by (simp_all add: envAt_def)
  have sb: "stampBefore initialState (sessionIdOf postEvt) = None"
    by (simp add: stampBefore_def initialState_def)
  have ib: "\<And>sid. statusBefore initialState sid = Idle"
    by (simp add: statusBefore_def initialState_def)
  from status_state_machine [of readEvt "envAt 1000" initialState] pre
  have 1: "status (agentAfter (envAt 1000) readEvt initialState) = Reading"
     "statusSetAt (agentAfter (envAt 1000) readEvt initialState) = Some 1000"
    by (simp_all add: readEvt_norm n)
  from status_state_machine [of postEvt "envAt 5000" initialState] post
  have 2: "status (agentAfter (envAt 5000) postEvt initialState) = Thinking"
    by (simp add: sb n)
  have stop: "isStop (hookEventOf (kindEvt ''stop''))"
    by (simp add: kindEvt_norm isStop_def)
  from status_state_machine [of "kindEvt ''stop''" "envAt 1000" initialState] stop
  have 3: "status (agentAfter (envAt 1000) (kindEvt ''stop'') initialState) = Done"
    by blast
  have start: "isSessionStart (hookEventOf (kindEvt ''session_start''))"
    by (simp add: kindEvt_norm isSessionStart_def)
  from status_state_machine [of "kindEvt ''session_start''" "envAt 1000" initialState] start
  have 4: "status (agentAfter (envAt 1000) (kindEvt ''session_start'') initialState) = Starting"
    by blast
  have other: "\<not> isPreTool (hookEventOf (kindEvt ''notification''))
      \<and> \<not> isPostTool (hookEventOf (kindEvt ''notification''))
      \<and> \<not> isStop (hookEventOf (kindEvt ''notification''))
      \<and> \<not> isSessionStart (hookEventOf (kindEvt ''notification''))
      \<and> \<not> isSubagentStop (hookEventOf (kindEvt ''notification''))
      \<and> \<not> isTaskDone (hookEventOf (kindEvt ''notification''))"
    by (simp add: kindEvt_norm kind_defs) (simp add: js_def)
  from status_state_machine [of "kindEvt ''notification''" "envAt 1000" initialState] other
  have 5: "status (agentAfter (envAt 1000) (kindEvt ''notification'') initialState) = Idle"
    by (simp add: ib)
  from 1 2 3 4 5 show ?thesis by simp
qed




lemma getOrCreateAgent_snd_fields:
  "knownAgents (snd (getOrCreateAgent t sid extra st))
     = (knownAgents st)(sid \<mapsto> fst (getOrCreateAgent t sid extra st))"
  "colorIndex (snd (getOrCreateAgent t sid extra st))
     = (if sid \<in> dom (knownAgents st) then colorIndex st else colorIndex st + 1)"
  "recentEvents (snd (getOrCreateAgent t sid extra st)) = recentEvents st"
  "recentMessages (snd (getOrCreateAgent t sid extra st)) = recentMessages st"
  "pendingTasks (snd (getOrCreateAgent t sid extra st)) = pendingTasks st"
  by (cases "knownAgents st sid"; auto simp: getOrCreateAgent_def Let_def)+

lemma midState_fields:
  "knownAgents (midState env e st)
     = (knownAgents st)(sessionIdOf e \<mapsto>
          fst (getOrCreateAgent (now env) (sessionIdOf e) (hintsOf e) st))"
  "colorIndex (midState env e st)
     = (if sessionIdOf e \<in> dom (knownAgents st) then colorIndex st else colorIndex st + 1)"
  "recentEvents (midState env e st) = recentEvents st"
  "recentMessages (midState env e st) = recentMessages st"
  by (simp_all add: midState_def Let_def getOrCreateAgent_snd_fields)

lemma processEvent_unfold:
  "processEvent env e st =
     (let agent2 = agentAfter env e st;
          st3 = snd (matchPending env e
                  (updateAgent env e (fst (getOrCreateAgent (now env) (sessionIdOf e) (hintsOf e) st)),
                   midState env e st));
          st4 = (case messageOf env e of
                   None \<Rightarrow> st3
                 | Some m \<Rightarrow> st3\<lparr>recentMessages := pushBounded MAX_MESSAGES m (recentMessages st3)\<rparr>)
      in st4\<lparr>knownAgents := (knownAgents st4)(sessionIdOf e \<mapsto> agent2),
             recentEvents := pushBounded MAX_EVENTS (recordOf env e agent2) (recentEvents st4),
             sent := sent st4 @ Event_msg (recordOf env e agent2) agent2 #
                  (case messageOf env e of None \<Rightarrow> [] | Some m \<Rightarrow> [Message_msg m])\<rparr>)"
  by (simp add: agentAfter_eq processEvent_def midState_def Let_def split_def)

lemma processEvent_knownAgents:
  "knownAgents (processEvent env e st) = (knownAgents st)(sessionIdOf e \<mapsto> agentAfter env e st)"
  by (cases "messageOf env e")
     (simp_all add: processEvent_unfold Let_def matchPending_snd_fields midState_fields)

lemma processEvent_colorIndex:
  "colorIndex (processEvent env e st)
     = (if sessionIdOf e \<in> dom (knownAgents st) then colorIndex st else colorIndex st + 1)"
  by (cases "messageOf env e")
     (simp_all add: processEvent_unfold Let_def matchPending_snd_fields midState_fields)

lemma processEvent_recentEvents:
  "recentEvents (processEvent env e st)
     = pushBounded MAX_EVENTS (recordOf env e (agentAfter env e st)) (recentEvents st)"
  by (cases "messageOf env e")
     (simp_all add: processEvent_unfold Let_def matchPending_snd_fields midState_fields)

lemma pickBest_spec:
  "pickBest joined ps (best, bc) = (best', bc') \<Longrightarrow>
   (\<forall>k<length ps. countMatches (snd (ps ! k)) joined \<le> bc') \<and>
   ((best' = best \<and> bc' = bc) \<or>
    (\<exists>i<length ps. best' = Some (fst (ps ! i)) \<and> bc' = countMatches (snd (ps ! i)) joined
        \<and> bc < bc' \<and> (\<forall>j<i. countMatches (snd (ps ! j)) joined < bc')))"
proof (induction ps arbitrary: best bc)
  case Nil
  then show ?case by simp
next
  case (Cons p ps)
  obtain lbl alts where p: "p = (lbl, alts)" by (cases p)
  let ?c = "countMatches alts joined"
  show ?case
  proof (cases "?c > bc")
    case True
    then have rec: "pickBest joined ps (Some lbl, ?c) = (best', bc')"
      using Cons.prems p by simp
    from Cons.IH [OF rec] have
      all: "\<forall>k<length ps. countMatches (snd (ps ! k)) joined \<le> bc'" and
      alt: "(best' = Some lbl \<and> bc' = ?c) \<or>
        (\<exists>i<length ps. best' = Some (fst (ps ! i)) \<and> bc' = countMatches (snd (ps ! i)) joined
            \<and> ?c < bc' \<and> (\<forall>j<i. countMatches (snd (ps ! j)) joined < bc'))"
      by blast+
    have c_le: "?c \<le> bc'" using alt by auto
    have A: "\<forall>k<length (p # ps). countMatches (snd ((p # ps) ! k)) joined \<le> bc'"
      using all c_le p by (auto simp: nth_Cons split: nat.splits)
    from alt have B: "\<exists>i<length (p # ps). best' = Some (fst ((p # ps) ! i))
        \<and> bc' = countMatches (snd ((p # ps) ! i)) joined
        \<and> bc < bc' \<and> (\<forall>j<i. countMatches (snd ((p # ps) ! j)) joined < bc')"
    proof
      assume "best' = Some lbl \<and> bc' = ?c"
      then show ?thesis using True p by (intro exI [of _ 0]) simp
    next
      assume "\<exists>i<length ps. best' = Some (fst (ps ! i)) \<and> bc' = countMatches (snd (ps ! i)) joined
            \<and> ?c < bc' \<and> (\<forall>j<i. countMatches (snd (ps ! j)) joined < bc')"
      then obtain i where i: "i < length ps" "best' = Some (fst (ps ! i))"
        "bc' = countMatches (snd (ps ! i)) joined" "?c < bc'"
        "\<forall>j<i. countMatches (snd (ps ! j)) joined < bc'" by blast
      show ?thesis
        using i True p by (intro exI [of _ "Suc i"]) (auto simp: nth_Cons split: nat.splits)
    qed
    from A B show ?thesis by blast
  next
    case False
    then have rec: "pickBest joined ps (best, bc) = (best', bc')"
      using Cons.prems p by simp
    from Cons.IH [OF rec] have
      all: "\<forall>k<length ps. countMatches (snd (ps ! k)) joined \<le> bc'" and
      alt: "(best' = best \<and> bc' = bc) \<or>
        (\<exists>i<length ps. best' = Some (fst (ps ! i)) \<and> bc' = countMatches (snd (ps ! i)) joined
            \<and> bc < bc' \<and> (\<forall>j<i. countMatches (snd (ps ! j)) joined < bc'))"
      by blast+
    have bc_le: "bc \<le> bc'" using alt by auto
    have A: "\<forall>k<length (p # ps). countMatches (snd ((p # ps) ! k)) joined \<le> bc'"
      using all bc_le False p by (auto simp: nth_Cons split: nat.splits)
    from alt have B: "(best' = best \<and> bc' = bc) \<or> (\<exists>i<length (p # ps). best' = Some (fst ((p # ps) ! i))
        \<and> bc' = countMatches (snd ((p # ps) ! i)) joined
        \<and> bc < bc' \<and> (\<forall>j<i. countMatches (snd ((p # ps) ! j)) joined < bc'))"
    proof
      assume "best' = best \<and> bc' = bc"
      then show ?thesis by simp
    next
      assume "\<exists>i<length ps. best' = Some (fst (ps ! i)) \<and> bc' = countMatches (snd (ps ! i)) joined
            \<and> bc < bc' \<and> (\<forall>j<i. countMatches (snd (ps ! j)) joined < bc')"
      then obtain i where i: "i < length ps" "best' = Some (fst (ps ! i))"
        "bc' = countMatches (snd (ps ! i)) joined" "bc < bc'"
        "\<forall>j<i. countMatches (snd (ps ! j)) joined < bc'" by blast
      have "\<exists>i<length (p # ps). best' = Some (fst ((p # ps) ! i))
        \<and> bc' = countMatches (snd ((p # ps) ! i)) joined
        \<and> bc < bc' \<and> (\<forall>j<i. countMatches (snd ((p # ps) ! j)) joined < bc')"
        using i False p by (intro exI [of _ "Suc i"]) (auto simp: nth_Cons split: nat.splits)
      then show ?thesis by blast
    qed
    from A B show ?thesis by blast
  qed
qed

lemma inferRoleFromFiles_spec:
  "(inferRoleFromFiles paths = None \<longleftrightarrow> (\<forall>i<length patterns. hits paths i < 2))
   \<and> (\<forall>l. inferRoleFromFiles paths = Some l \<longrightarrow>
        (\<exists>i<length patterns. l = fst (patterns ! i) \<and> 2 \<le> hits paths i
           \<and> (\<forall>j<length patterns. hits paths j \<le> hits paths i)
           \<and> (\<forall>j<i. hits paths j < hits paths i)))"
proof -
  define joined where "joined = toLowerCase (joinLines paths)"
  obtain best' bc' where r: "pickBest joined patterns (None, 0) = (best', bc')"
    by (cases "pickBest joined patterns (None, 0)")
  have inf: "inferRoleFromFiles paths = (if bc' \<ge> 2 then best' else None)"
    using r by (simp add: inferRoleFromFiles_def joined_def [symmetric] Let_def)
  have h: "\<And>i. hits paths i = countMatches (snd (patterns ! i)) joined"
    by (simp add: hits_def joined_def)
  from pickBest_spec [OF r] have
    all: "\<forall>k<length patterns. hits paths k \<le> bc'" and
    alt: "(best' = None \<and> bc' = 0) \<or>
        (\<exists>i<length patterns. best' = Some (fst (patterns ! i)) \<and> bc' = hits paths i
            \<and> 0 < bc' \<and> (\<forall>j<i. hits paths j < bc'))"
    unfolding h by blast+
  show ?thesis
  proof (cases "bc' \<ge> 2")
    case True
    with alt obtain i where i: "i < length patterns" "best' = Some (fst (patterns ! i))"
      "bc' = hits paths i" "\<forall>j<i. hits paths j < bc'" by auto
    have "inferRoleFromFiles paths = Some (fst (patterns ! i))" using inf True i by simp
    moreover have "\<not> (\<forall>i<length patterns. hits paths i < 2)" using i True by auto
    ultimately show ?thesis using i all True by auto
  next
    case False
    then have "inferRoleFromFiles paths = None" using inf by simp
    moreover have "\<forall>i<length patterns. hits paths i < 2" using all False by auto
    ultimately show ?thesis by simp
  qed
qed


lemma label_stages:
  "label (updateStatus t h tool a) = label a"
  "taskLabel (updateStatus t h tool a) = taskLabel a"
  "filePaths (updateStatus t h tool a) = filePaths a"
  "label (updateActivity h tool fp a) = label a"
  "taskLabel (updateActivity h tool fp a) = taskLabel a"
  "filePaths (updateActivity h tool fp a) = filePaths a"
  "label (touch t tool sf a) = label a"
  "taskLabel (touch t tool sf a) = taskLabel a"
  "filePaths (touch t tool sf a) = filePaths a"
  "label (addTokens n a) = label a"
  "taskLabel (addTokens n a) = taskLabel a"
  "filePaths (addTokens n a) = filePaths a"
  by (simp_all add: updateStatus_def updateActivity_def touch_def addTokens_def Let_def
      split: option.splits)

lemma trackFile_None: "trackFile None a = a"
  by (simp add: trackFile_def)

lemma js_or_truthy: "js_or a None = Some f \<Longrightarrow> f \<noteq> []"
  by (cases a) (auto simp: js_or_def split: if_splits)

lemma js_or_nonempty: "js_or a b = Some f \<Longrightarrow> (\<And>g. b = Some g \<Longrightarrow> g \<noteq> []) \<Longrightarrow> f \<noteq> []"
  by (cases a) (auto simp: js_or_def split: if_splits)

lemma filePathOf_nonempty: "filePathOf e = Some f \<Longrightarrow> f \<noteq> []"
  unfolding filePathOf_def Let_def
  by (erule js_or_nonempty, erule js_or_nonempty, erule js_or_truthy)

lemma trackFile_filePaths:
  "f \<noteq> [] \<Longrightarrow> filePaths (trackFile (Some f) a) = keepLast30 (filePaths a @ [backslashToSlash f])"
  by (simp add: trackFile_def keepLast30_def Let_def split: option.splits)

lemma trackFile_label:
  "f \<noteq> [] \<Longrightarrow> label (trackFile (Some f) a)
     = (if \<not> truthy (taskLabel a) \<and> startsWith (label a) (js ''Agent '')
        then (case inferRoleFromFiles (keepLast30 (filePaths a @ [backslashToSlash f])) of
                None \<Rightarrow> label a
              | Some inferred \<Rightarrow> if inferred \<noteq> [] then inferred else label a)
        else label a)"
  by (simp add: trackFile_def keepLast30_def Let_def split: option.splits)

lemma updateAgent_filePaths:
  "filePaths (updateAgent env e a)
     = (case filePathOf e of None \<Rightarrow> filePaths a
        | Some f \<Rightarrow> keepLast30 (filePaths a @ [backslashToSlash f]))"
  by (cases "filePathOf e")
     (simp_all add: updateAgent_def label_stages trackFile_None trackFile_filePaths
        filePathOf_nonempty)

lemma updateAgent_label:
  "label (updateAgent env e a)
     = (case filePathOf e of None \<Rightarrow> label a
        | Some f \<Rightarrow>
           if \<not> truthy (taskLabel a) \<and> startsWith (label a) (js ''Agent '')
           then (case inferRoleFromFiles (keepLast30 (filePaths a @ [backslashToSlash f])) of
                   None \<Rightarrow> label a
                 | Some inferred \<Rightarrow> if inferred \<noteq> [] then inferred else label a)
           else label a)"
  by (cases "filePathOf e")
     (simp_all add: updateAgent_def label_stages trackFile_None trackFile_label
        filePathOf_nonempty split: option.splits)

lemma length_keepLast30: "length (keepLast30 xs) \<le> 30"
  by (simp add: keepLast30_def)

text \<open>
  C6, amended: role inference returns the label of the pattern with the highest match
  count over the lower-cased, newline-joined paths, the earliest such pattern of the list
  on a tie, and returns nothing when that count is below 2. The history keeps at most the
  last 30 paths. The inferred label becomes the agent's label exactly when the label
  starts with \<open>"Agent "\<close> (as a placeholder does) and the agent has no task label; no
  other label is changed by it.
\<close>

theorem role_inference:
  "(inferRoleFromFiles paths = None \<longleftrightarrow> (\<forall>i<length patterns. hits paths i < 2))
   \<and> (\<forall>l. inferRoleFromFiles paths = Some l \<longrightarrow>
        (\<exists>i<length patterns. l = fst (patterns ! i) \<and> 2 \<le> hits paths i
           \<and> (\<forall>j<length patterns. hits paths j \<le> hits paths i)
           \<and> (\<forall>j<i. hits paths j < hits paths i)))
   \<and> length (filePaths (updateAgent env e a)) \<le> max 30 (length (filePaths a))
   \<and> (label (updateAgent env e a) \<noteq> label a \<longrightarrow>
        startsWith (label a) (js ''Agent '') \<and> \<not> truthy (taskLabel a) \<and> filePathOf e \<noteq> None
        \<and> inferRoleFromFiles (filePaths (updateAgent env e a)) = Some (label (updateAgent env e a)))
   \<and> (\<forall>l. startsWith (label a) (js ''Agent '') \<and> \<not> truthy (taskLabel a) \<and> filePathOf e \<noteq> None
          \<and> inferRoleFromFiles (filePaths (updateAgent env e a)) = Some l \<and> l \<noteq> []
        \<longrightarrow> label (updateAgent env e a) = l)"
proof -
  note inf = inferRoleFromFiles_spec [of paths]
  have len: "length (filePaths (updateAgent env e a)) \<le> max 30 (length (filePaths a))"
    using length_keepLast30 by (cases "filePathOf e") (auto simp: updateAgent_filePaths intro: le_max_iff_disj [THEN iffD2])
  have only: "label (updateAgent env e a) \<noteq> label a \<longrightarrow>
        startsWith (label a) (js ''Agent '') \<and> \<not> truthy (taskLabel a) \<and> filePathOf e \<noteq> None
        \<and> inferRoleFromFiles (filePaths (updateAgent env e a)) = Some (label (updateAgent env e a))"
    by (cases "filePathOf e")
       (auto simp: updateAgent_label updateAgent_filePaths split: option.splits if_splits)
  have app: "\<forall>l. startsWith (label a) (js ''Agent '') \<and> \<not> truthy (taskLabel a) \<and> filePathOf e \<noteq> None
          \<and> inferRoleFromFiles (filePaths (updateAgent env e a)) = Some l \<and> l \<noteq> []
        \<longrightarrow> label (updateAgent env e a) = l"
    by (cases "filePathOf e")
       (auto simp: updateAgent_label updateAgent_filePaths split: option.splits if_splits)
  from inf len only app show ?thesis by blast
qed

lemmas infer_eval = inferRoleFromFiles_def patterns_def toLowerCase_def lowerChar_def
  isPrefixOf_def newline_def js_def Let_def

lemma infer_testPaths: "inferRoleFromFiles testPaths = Some (js ''Tests'')"
  by (simp add: testPaths_def infer_eval)

lemma infer_single: "inferRoleFromFiles [js ''tests/a.test.js''] = Some (js ''Tests'')"
  by (simp add: infer_eval)

lemma matchPending_other:
  "\<not> isSessionStart (hookEventOf e) \<Longrightarrow> matchPending env e as = as"
  by (simp add: matchPending_def Let_def)

lemma testEvt_norm:
  "sessionIdOf testEvt = js ''w1''"
  "hookEventOf testEvt = js ''pre_tool''"
  "filePathOf testEvt = Some (js ''tests/a.test.js'')"
  "hintsOf testEvt = noHints"
  by (simp_all add: testEvt_def emptyEvt_def emptyInput_def sessionIdOf_def hookEventOf_def
      filePathOf_def toolInputOf_def hintsOf_def cwdOf_def noHints_def js_or_def js_or_str_def
      js_def Let_def)

lemma smithState_agent:
  "knownAgents smithState (js ''w1'')
     = Some (newAgent 0 (js ''w1'') (noHints\<lparr>h_label := Some (js ''Agent Smith'')\<rparr>) (PALETTE ! 0))"
  by (simp add: smithState_def getOrCreateAgent_new initialState_def)

lemma applyHints_noHints: "applyHints noHints a = a"
  by (simp add: applyHints_def noHints_def)

lemma smith_fields:
  "label (newAgent 0 (js ''w1'') (noHints\<lparr>h_label := Some (js ''Agent Smith'')\<rparr>) c) = js ''Agent Smith''"
  "taskLabel (newAgent 0 (js ''w1'') (noHints\<lparr>h_label := Some (js ''Agent Smith'')\<rparr>) c) = None"
  "filePaths (newAgent 0 (js ''w1'') (noHints\<lparr>h_label := Some (js ''Agent Smith'')\<rparr>) c) = []"
  by (simp_all add: newAgent_def noHints_def js_or_str_def js_def)

text \<open>
  C6, as stated, at a concrete input: the agent \<open>w1\<close> carries the hinted label
  \<open>"Agent Smith"\<close>, which is not the placeholder of its id, and has no task label; one
  event reading \<open>tests/a.test.js\<close> replaces that label by the inferred \<open>"Tests"\<close>.
\<close>

theorem inferred_role_replaces_hinted_label:
  "label (the (knownAgents smithState (js ''w1''))) = js ''Agent Smith''
   \<and> js ''Agent Smith'' \<noteq> placeholderLabel (js ''w1'')
   \<and> taskLabel (the (knownAgents smithState (js ''w1''))) = None
   \<and> label (agentAfter (envAt 1) testEvt smithState) = js ''Tests''"
proof -
  let ?smith = "newAgent 0 (js ''w1'') (noHints\<lparr>h_label := Some (js ''Agent Smith'')\<rparr>) (PALETTE ! 0)"
  have a0: "fst (getOrCreateAgent (now (envAt 1)) (js ''w1'') noHints smithState) = ?smith"
    by (simp add: getOrCreateAgent_known [OF smithState_agent] applyHints_noHints)
  have ns: "\<not> isSessionStart (hookEventOf testEvt)"
    by (simp add: testEvt_norm isSessionStart_def js_def)
  have sw: "startsWith (js ''Agent Smith'') (js ''Agent '')"
    by (simp add: startsWith_def js_def)
  have k: "keepLast30 [backslashToSlash (js ''tests/a.test.js'')] = [js ''tests/a.test.js'']"
    by (simp add: keepLast30_def backslashToSlash_def js_def)
  have t: "js ''Tests'' \<noteq> []" by (simp add: js_def)
  have after: "agentAfter (envAt 1) testEvt smithState = updateAgent (envAt 1) testEvt ?smith"
    by (simp add: agentAfter_eq matchPending_other [OF ns] testEvt_norm a0)
  have l: "label (updateAgent (envAt 1) testEvt ?smith) = js ''Tests''"
    by (simp add: updateAgent_label testEvt_norm smith_fields sw k infer_single t)
  have p: "js ''Agent Smith'' \<noteq> placeholderLabel (js ''w1'')"
    by (simp add: placeholderLabel_def js_def)
  show ?thesis using after l p by (simp add: smithState_agent smith_fields)
qed

theorem role_inference_witness:
  "(\<exists>i<length patterns. js ''Tests'' = fst (patterns ! i) \<and> 2 \<le> hits testPaths i)
   \<and> label (updateAgent (envAt 1) testEvt (newAgent 0 (js ''w1'') noHints (PALETTE ! 0)))
       = js ''Tests''"
proof -
  let ?a = "newAgent 0 (js ''w1'') noHints (PALETTE ! 0)"
  note r = role_inference [of testPaths "envAt 1" testEvt ?a]
  have 1: "\<exists>i<length patterns. js ''Tests'' = fst (patterns ! i) \<and> 2 \<le> hits testPaths i"
    using r infer_testPaths by blast
  have f: "label ?a = js ''Agent w1''" "taskLabel ?a = None" "filePaths ?a = []"
    by (simp_all add: newAgent_def noHints_def js_or_str_def placeholderLabel_def js_def)
  have sw0: "startsWith (js ''Agent w1'') (js ''Agent '')"
    by (simp add: startsWith_def js_def)
  have sw: "startsWith (label ?a) (js ''Agent '')"
    using sw0 by (simp only: f)
  have k: "keepLast30 [backslashToSlash (js ''tests/a.test.js'')] = [js ''tests/a.test.js'']"
    by (simp add: keepLast30_def backslashToSlash_def js_def)
  have fp: "filePaths (updateAgent (envAt 1) testEvt ?a) = [js ''tests/a.test.js'']"
    by (simp add: updateAgent_filePaths testEvt_norm f k)
  have h: "startsWith (label ?a) (js ''Agent '') \<and> \<not> truthy (taskLabel ?a)
      \<and> filePathOf testEvt \<noteq> None
      \<and> inferRoleFromFiles (filePaths (updateAgent (envAt 1) testEvt ?a)) = Some (js ''Tests'')
      \<and> js ''Tests'' \<noteq> []"
  proof -
    have ne: "js ''Tests'' \<noteq> []" by (simp add: js_def)
    show ?thesis using sw ne by (simp add: f fp testEvt_norm infer_single)
  qed
  have 2: "label (updateAgent (envAt 1) testEvt ?a) = js ''Tests''"
    using r h by blast
  from 1 2 show ?thesis by simp
qed

section \<open>Properties of the task matcher\<close>

lemma midState_pendingTasks:
  "pendingTasks (midState env e st)
     = (if isDelegation e
        then pendingTasks st @ [delegationPending env e
               (updateAgent env e (fst (getOrCreateAgent (now env) (sessionIdOf e) (hintsOf e) st)))]
        else pendingTasks st)"
  by (simp add: midState_def Let_def getOrCreateAgent_snd_fields)

lemma processEvent_pendingTasks:
  "pendingTasks (processEvent env e st)
     = pendingTasks (snd (matchPending env e
         (updateAgent env e (fst (getOrCreateAgent (now env) (sessionIdOf e) (hintsOf e) st)),
          midState env e st)))"
  by (cases "messageOf env e") (simp_all add: processEvent_unfold Let_def)

lemma pendingTasks_other:
  "\<not> isSessionStart (hookEventOf e) \<Longrightarrow>
   pendingTasks (processEvent env e st)
     = (if isDelegation e
        then pendingTasks st @ [delegationPending env e
               (updateAgent env e (fst (getOrCreateAgent (now env) (sessionIdOf e) (hintsOf e) st)))]
        else pendingTasks st)"
  by (simp add: processEvent_pendingTasks matchPending_other midState_pendingTasks)

lemma sessionStart_not_delegation: "isSessionStart (hookEventOf e) \<Longrightarrow> \<not> isDelegation e"
  using pre_excl [of "hookEventOf e"] by (auto simp: isDelegation_def)

lemma matcher_takes_first_eligible:
  assumes s: "isSessionStart (hookEventOf e)"
    and f: "find (eligible (now env) (sessionIdOf e)) (pendingTasks st) = Some p"
  shows "label (agentAfter env e st) = p_label p"
    and "taskLabel (agentAfter env e st) = Some (p_label p)"
    and "pendingTasks (processEvent env e st)
           = removeFirst (eligible (now env) (sessionIdOf e)) (pendingTasks st)"
proof -
  have pm: "pendingTasks (midState env e st) = pendingTasks st"
    using sessionStart_not_delegation [OF s] by (simp add: midState_pendingTasks)
  have ne: "pendingTasks st \<noteq> []" using f by auto
  show "label (agentAfter env e st) = p_label p"
    using s f ne by (simp add: agentAfter_eq matchPending_def Let_def pm)
  show "taskLabel (agentAfter env e st) = Some (p_label p)"
    using s f ne by (simp add: agentAfter_eq matchPending_def Let_def pm)
  show "pendingTasks (processEvent env e st)
           = removeFirst (eligible (now env) (sessionIdOf e)) (pendingTasks st)"
    using s f ne by (simp add: processEvent_pendingTasks matchPending_def Let_def pm)
qed

lemma taskEvt_norm:
  "sessionIdOf (taskEvt d) = js ''a''"
  "hookEventOf (taskEvt d) = js ''pre_tool''"
  "toolNameOf (taskEvt d) = Some (js ''Task'')"
  "d \<noteq> [] \<Longrightarrow> taskDescOf (taskEvt d) = js d"
  by (simp_all add: taskEvt_def emptyEvt_def emptyInput_def sessionIdOf_def hookEventOf_def
      toolNameOf_def taskDescOf_def toolInputOf_def js_or_def js_or_str_def js_def Let_def)

lemma startEvt_norm:
  "sessionIdOf startEvt = js ''b''"
  "hookEventOf startEvt = js ''session_start''"
  by (simp_all add: startEvt_def emptyEvt_def sessionIdOf_def hookEventOf_def
      js_or_def js_or_str_def js_def)

lemma delegationPending_fields:
  "p_label (delegationPending env e a) = summarizeTask (taskDescOf e)"
  "p_from (delegationPending env e a) = sessionIdOf e"
  "p_timestamp (delegationPending env e a) = now env"
  by (simp_all add: delegationPending_def)

lemma summarize_jobs:
  "summarizeTask (js ''first job'') = js ''first job''"
  "summarizeTask (js ''second job'') = js ''second job''"
  by (simp_all add: summarizeTask_def firstClause_def str_eval)

lemma taskEvt_delegation: "d \<noteq> [] \<Longrightarrow> isDelegation (taskEvt d)"
  by (simp add: isDelegation_def taskEvt_norm isPreTool_def js_def)

lemma taskEvt_not_start: "\<not> isSessionStart (hookEventOf (taskEvt d))"
  by (simp add: taskEvt_norm isSessionStart_def js_def)

text \<open>
  C2 at a concrete input: agent \<open>a\<close> delegates \<open>"first job"\<close> at time 1000 and
  \<open>"second job"\<close> at time 2000; session \<open>b\<close> starts at time 3000, when both entries are
  younger than 15 seconds and come from another session. The new agent is labelled with
  the older entry, \<open>"first job"\<close>, and the more recent entry stays in the queue.
\<close>

theorem taskMatcher_takes_oldest:
  "map p_label (pendingTasks twoTasks) = [js ''first job'', js ''second job'']
   \<and> map p_timestamp (pendingTasks twoTasks) = [1000, 2000]
   \<and> eligible (now (envAt 3000)) (sessionIdOf startEvt) (pendingTasks twoTasks ! 0)
   \<and> eligible (now (envAt 3000)) (sessionIdOf startEvt) (pendingTasks twoTasks ! 1)
   \<and> label (agentAfter (envAt 3000) startEvt twoTasks) = js ''first job''
   \<and> map p_label (pendingTasks (processEvent (envAt 3000) startEvt twoTasks)) = [js ''second job'']"
proof -
  let ?s1 = "processEvent (envAt 1000) (taskEvt ''first job'') initialState"
  let ?p1 = "delegationPending (envAt 1000) (taskEvt ''first job'')
       (updateAgent (envAt 1000) (taskEvt ''first job'')
         (fst (getOrCreateAgent (now (envAt 1000)) (sessionIdOf (taskEvt ''first job''))
                (hintsOf (taskEvt ''first job'')) initialState)))"
  let ?p2 = "delegationPending (envAt 2000) (taskEvt ''second job'')
       (updateAgent (envAt 2000) (taskEvt ''second job'')
         (fst (getOrCreateAgent (now (envAt 2000)) (sessionIdOf (taskEvt ''second job''))
                (hintsOf (taskEvt ''second job'')) ?s1)))"
  have d1: "isDelegation (taskEvt ''first job'')" "isDelegation (taskEvt ''second job'')"
    by (simp_all add: taskEvt_delegation)
  have q1: "pendingTasks ?s1 = [?p1]"
    using d1 by (simp add: pendingTasks_other [OF taskEvt_not_start] initialState_def)
  have q2: "pendingTasks twoTasks = [?p1, ?p2]"
    using d1 q1 by (simp add: twoTasks_def processAll_def pendingTasks_other [OF taskEvt_not_start])
  have n: "now (envAt 1000) = 1000" "now (envAt 2000) = 2000" "now (envAt 3000) = 3000"
    by (simp_all add: envAt_def)
  have ab: "js ''a'' \<noteq> js ''b''" by (simp add: js_def)
  have l: "p_label ?p1 = js ''first job''" "p_label ?p2 = js ''second job''"
    by (simp_all add: delegationPending_fields taskEvt_norm summarize_jobs)
  have el: "eligible 3000 (js ''b'') ?p1" "eligible 3000 (js ''b'') ?p2"
    using ab by (simp_all add: eligible_def delegationPending_fields taskEvt_norm n)
  have f: "find (eligible (now (envAt 3000)) (sessionIdOf startEvt)) (pendingTasks twoTasks) = Some ?p1"
    using el by (simp add: q2 n startEvt_norm)
  have st: "isSessionStart (hookEventOf startEvt)"
    by (simp add: startEvt_norm isSessionStart_def)
  note m = matcher_takes_first_eligible [OF st f]
  have r: "pendingTasks (processEvent (envAt 3000) startEvt twoTasks) = [?p2]"
    using m(3) el by (simp add: q2 n startEvt_norm)
  have ts: "p_timestamp ?p1 = 1000" "p_timestamp ?p2 = 2000"
    by (simp_all add: delegationPending_fields n)
  show ?thesis
    using m(1) el l ts by (simp add: q2 r n startEvt_norm)
qed

section \<open>Properties of the team directory watcher\<close>

lemma inboxUpdates_append [simp]:
  "filter isInboxUpdate (xs @ ys) = filter isInboxUpdate xs @ filter isInboxUpdate ys"
  by simp

lemma registerMember_sent:
  "\<exists>xs. sent (registerMember t team st m) = sent st @ xs \<and> filter isInboxUpdate xs = []"
  by (cases "knownAgents st (memberAgentId team m)")
     (simp_all add: registerMember_def Let_def split_def getOrCreateAgent_new getOrCreateAgent_known)


lemma registerMembers_sent:
  "\<exists>xs. sent (foldl (registerMember t team) st ms) = sent st @ xs \<and> filter isInboxUpdate xs = []"
proof (induction ms arbitrary: st)
  case Nil
  show ?case by simp
next
  case (Cons m ms)
  from registerMember_sent [of t team st m] obtain xs where
    xs: "sent (registerMember t team st m) = sent st @ xs" "filter isInboxUpdate xs = []" by blast
  from Cons.IH [of "registerMember t team st m"] obtain ys where
    ys: "sent (foldl (registerMember t team) (registerMember t team st m) ms)
           = sent (registerMember t team st m) @ ys" "filter isInboxUpdate ys = []" by blast
  show ?case using xs ys by (intro exI [of _ "xs @ ys"]) simp
qed


lemma visualMessages_sent:
  "\<exists>xs. sent (stateOf (visualMessages h env team agentName i msgs st)) = sent st @ xs
        \<and> filter isInboxUpdate xs = []"
proof (induction msgs arbitrary: i st)
  case Nil
  show ?case by simp
next
  case (Cons msg rest)
  show ?case
  proof (cases "truthy (i_from msg)")
    case False
    then show ?thesis using Cons.IH [of "Suc i" st] by simp
  next
    case True
    show ?thesis
    proof (cases "i_text msg")
      case None
      then show ?thesis using True by simp
    next
      case (Some body)
      let ?v = "visualMessage env (visualId h i) team agentName (the (i_from msg)) body st"
      let ?st = "st\<lparr>recentMessages := pushBounded MAX_MESSAGES ?v (recentMessages st),
                     sent := sent st @ [Message_msg ?v]\<rparr>"
      from Cons.IH [of "Suc i" ?st] obtain xs where
        xs: "sent (stateOf (visualMessages h env team agentName (Suc i) rest ?st)) = sent ?st @ xs"
            "filter isInboxUpdate xs = []" by blast
      show ?thesis
        using True Some xs by (intro exI [of _ "Message_msg ?v # xs"]) (simp add: Let_def)
    qed
  qed
qed

lemma newlySent_append: "sent after = sent before @ xs \<Longrightarrow> newlySent before after = xs"
  by (simp add: newlySent_def)

text \<open>
  C7: when the changed path is a member's inbox file of a team whose configuration can be
  read, and the re-read inbox is the prior snapshot of that member followed by a non-empty
  list of new entries, the handler broadcasts exactly one inbox update, which carries
  exactly those new entries, in order, and the new total count. When the re-read inbox is
  not longer than the prior snapshot, no inbox update is broadcast.
\<close>

theorem inbox_diff:
  assumes parts: "splitOn 47 (backslashToSlash filename) = [team, js ''inboxes'', file]"
    and nt: "team \<noteq> []" and nf: "file \<noteq> []"
    and config: "readTeamConfig h team = Some config"
  shows
    "(\<forall>new. new \<noteq> []
        \<and> curInbox h team (basenameJson h file) = prevInbox st team (basenameJson h file) @ new
      \<longrightarrow> filter isInboxUpdate (newlySent st (stateOf (teamsChanged h env filename st)))
            = [Inbox_update team (basenameJson h file) new
                 (length (prevInbox st team (basenameJson h file)) + length new)])
     \<and> (length (curInbox h team (basenameJson h file))
           \<le> length (prevInbox st team (basenameJson h file))
        \<longrightarrow> filter isInboxUpdate (newlySent st (stateOf (teamsChanged h env filename st))) = [])"
proof -
  let ?name = "basenameJson h file"
  let ?cur = "curInbox h team ?name"
  let ?prev = "prevInbox st team ?name"
  let ?st1 = "st\<lparr>teamsState := (teamsState st)(team \<mapsto>
                \<lparr>t_config = config, t_inboxes = readTeamInboxes h team\<rparr>)\<rparr>"
  let ?st2 = "foldl (registerMember (now env) team) ?st1
                (case tc_members config of None \<Rightarrow> [] | Some ms \<Rightarrow> ms)"
  have p1: "partAt [team, js ''inboxes'', file] 1 = Some (js ''inboxes'')"
    and p2: "partAt [team, js ''inboxes'', file] 2 = Some file"
    by (simp_all add: partAt_def)
  have p1': "partAt [team, js ''inboxes'', file] (Suc 0) = Some (js ''inboxes'')"
    by (simp add: partAt_def)
  have nc: "js ''inboxes'' \<noteq> js ''config.json''" by (simp add: js_def)
  have run: "teamsChanged h env filename st =
      (if length (drop (length ?prev) ?cur) > 0
       then visualMessages h env team ?name 0 (drop (length ?prev) ?cur)
              (?st2\<lparr>sent := sent ?st2 @
                 [Inbox_update team ?name (drop (length ?prev) ?cur) (length ?cur)]\<rparr>)
       else Completed ?st2)"
    using nt nf config nc
    by (simp add: teamsChanged_def parts p1 p1' p2 Let_def)
  from registerMembers_sent [of "now env" team ?st1] obtain joins where
    joins: "sent ?st2 = sent st @ joins" "filter isInboxUpdate joins = []" by auto
  show ?thesis
  proof (intro conjI allI impI)
    fix new
    assume a: "new \<noteq> [] \<and> ?cur = ?prev @ new"
    then have d: "drop (length ?prev) ?cur = new" "length ?cur = length ?prev + length new"
      by simp_all
    let ?st3 = "?st2\<lparr>sent := sent ?st2 @
                 [Inbox_update team ?name new (length ?prev + length new)]\<rparr>"
    have r: "teamsChanged h env filename st = visualMessages h env team ?name 0 new ?st3"
      using a by (simp add: run d)
    from visualMessages_sent [of h env team ?name 0 new ?st3] obtain vs where
      vs: "sent (stateOf (visualMessages h env team ?name 0 new ?st3)) = sent ?st3 @ vs"
          "filter isInboxUpdate vs = []" by blast
    have "sent (stateOf (teamsChanged h env filename st))
            = sent st @ (joins @ [Inbox_update team ?name new (length ?prev + length new)] @ vs)"
      using vs joins by (simp add: r)
    then have "newlySent st (stateOf (teamsChanged h env filename st))
            = joins @ [Inbox_update team ?name new (length ?prev + length new)] @ vs"
      by (rule newlySent_append)
    then show "filter isInboxUpdate (newlySent st (stateOf (teamsChanged h env filename st)))
            = [Inbox_update team ?name new (length ?prev + length new)]"
      using joins vs by simp
  next
    assume "length ?cur \<le> length ?prev"
    then have r: "teamsChanged h env filename st = Completed ?st2"
      by (simp add: run)
    have "newlySent st (stateOf (teamsChanged h env filename st)) = joins"
      using joins by (simp add: r newlySent_def)
    then show "filter isInboxUpdate (newlySent st (stateOf (teamsChanged h env filename st))) = []"
      using joins by simp
  qed
qed

theorem inbox_diff_witness:
  "filter isInboxUpdate
     (newlySent snapshotState
        (stateOf (teamsChanged sampleHost (envAt 5) (js ''t/inboxes/bob.json'') snapshotState)))
   = [Inbox_update (js ''t'') (js ''bob'') [entry ''al'' ''two'', entry ''cy'' ''three''] 3]"
proof -
  have parts: "splitOn 47 (backslashToSlash (js ''t/inboxes/bob.json''))
                 = [js ''t'', js ''inboxes'', js ''bob.json'']"
    by (simp add: backslashToSlash_def js_def)
  have nt: "js ''t'' \<noteq> []" and nf: "js ''bob.json'' \<noteq> []" by (simp_all add: js_def)
  have cfg: "readTeamConfig sampleHost (js ''t'') = Some \<lparr>tc_members = None\<rparr>"
    by (simp add: sampleHost_def)
  have bn: "basenameJson sampleHost (js ''bob.json'') = js ''bob''"
    by (simp add: sampleHost_def dropJsonSuffix_def js_def)
  have cur: "curInbox sampleHost (js ''t'') (js ''bob'')
               = [entry ''al'' ''one'', entry ''al'' ''two'', entry ''cy'' ''three'']"
    by (simp add: curInbox_def sampleHost_def)
  have prev: "prevInbox snapshotState (js ''t'') (js ''bob'') = [entry ''al'' ''one'']"
    by (simp add: prevInbox_def snapshotState_def)
  from inbox_diff [OF parts nt nf cfg, of snapshotState "envAt 5"]
  have "[entry ''al'' ''two'', entry ''cy'' ''three''] \<noteq> []
        \<and> curInbox sampleHost (js ''t'') (basenameJson sampleHost (js ''bob.json''))
          = prevInbox snapshotState (js ''t'') (basenameJson sampleHost (js ''bob.json''))
            @ [entry ''al'' ''two'', entry ''cy'' ''three'']
      \<longrightarrow> filter isInboxUpdate
            (newlySent snapshotState
              (stateOf (teamsChanged sampleHost (envAt 5) (js ''t/inboxes/bob.json'') snapshotState)))
          = [Inbox_update (js ''t'') (basenameJson sampleHost (js ''bob.json''))
               [entry ''al'' ''two'', entry ''cy'' ''three'']
               (length (prevInbox snapshotState (js ''t'') (basenameJson sampleHost (js ''bob.json'')))
                + length [entry ''al'' ''two'', entry ''cy'' ''three''])]"
    by blast
  then show ?thesis by (simp add: bn cur prev)
qed

section \<open>Properties of events as the log delivers them\<close>

lemma typedEvt_emptyRaw: "typedEvt emptyRaw = emptyEvt"
  by (simp add: typedEvt_def emptyRaw_def emptyEvt_def)

lemma aborts_iff:
  "aborts r \<longleftrightarrow>
     rw_model r = NotText \<or> rawSessionId r = NotText \<or> rawFilePath r = NotText
     \<or> (toolNameOf (typedEvt r) = Some (js ''Task'') \<and> isPreTool (hookEventOf (typedEvt r))
         \<and> rawTaskDesc r = NotText)"
  by (simp add: aborts_def abortPoint_def Let_def)

lemma abortPoint_before:
  "abortPoint r = Some BeforeAgent \<longleftrightarrow> rw_model r = NotText \<or> rawSessionId r = NotText"
  by (simp add: abortPoint_def Let_def)

lemma processRawEvent_completes:
  "\<not> aborts r \<Longrightarrow> processRawEvent env r st = Completed (processEvent env (typedEvt r) st)"
  by (simp add: aborts_def processRawEvent_def Let_def)

lemma processRawEvent_before:
  "abortPoint r = Some BeforeAgent \<Longrightarrow> processRawEvent env r st = Uncaught st"
  by (simp add: processRawEvent_def Let_def)

lemma knownAgents_raw:
  "knownAgents (stateOf (processRawEvent env r st)) =
     (case abortPoint r of
        None \<Rightarrow> (knownAgents st)(sessionIdOf (typedEvt r) \<mapsto> agentAfter env (typedEvt r) st)
      | Some BeforeAgent \<Rightarrow> knownAgents st
      | Some p \<Rightarrow> (knownAgents st)(sessionIdOf (typedEvt r) \<mapsto>
          agentAtAbort env (typedEvt r) p
            (fst (getOrCreateAgent (now env) (sessionIdOf (typedEvt r)) (hintsOf (typedEvt r)) st))))"
proof (cases "abortPoint r")
  case None
  then show ?thesis by (simp add: processRawEvent_def Let_def processEvent_knownAgents)
next
  case (Some p)
  then show ?thesis
    by (cases p) (simp_all add: processRawEvent_def Let_def split_def getOrCreateAgent_snd_fields)
qed

lemma knownAgents_raw_other:
  "k \<noteq> sessionIdOf (typedEvt r) \<Longrightarrow>
   knownAgents (stateOf (processRawEvent env r st)) k = knownAgents st k"
  by (simp add: knownAgents_raw split: option.splits abortAt.splits)

lemma dom_raw:
  "sessionIdOf (typedEvt r) \<in> dom (knownAgents (stateOf (processRawEvent env r st)))
     \<longleftrightarrow> sessionIdOf (typedEvt r) \<in> dom (knownAgents st) \<or> abortPoint r \<noteq> Some BeforeAgent"
  by (auto simp: knownAgents_raw split: option.splits abortAt.splits)

lemma colorIndex_raw:
  "colorIndex (stateOf (processRawEvent env r st))
     = (if abortPoint r = Some BeforeAgent \<or> sessionIdOf (typedEvt r) \<in> dom (knownAgents st)
        then colorIndex st else colorIndex st + 1)"
proof (cases "abortPoint r")
  case None
  then show ?thesis by (simp add: processRawEvent_def Let_def processEvent_colorIndex)
next
  case (Some p)
  then show ?thesis
    by (cases p) (simp_all add: processRawEvent_def Let_def split_def getOrCreateAgent_snd_fields)
qed

lemma processEvent_eventsFileSize:
  "eventsFileSize (processEvent env e st) = eventsFileSize st"
  by (cases "messageOf env e")
     (simp_all add: processEvent_unfold Let_def matchPending_snd_fields midState_def
        getOrCreateAgent_def split: option.splits)

lemma eventsFileSize_raw:
  "eventsFileSize (stateOf (processRawEvent env r st)) = eventsFileSize st"
proof (cases "abortPoint r")
  case None
  then show ?thesis by (simp add: processRawEvent_def Let_def processEvent_eventsFileSize)
next
  case (Some p)
  then show ?thesis
    by (cases p; cases "knownAgents st (sessionIdOf (typedEvt r))")
       (simp_all add: processRawEvent_def Let_def split_def getOrCreateAgent_def)
qed

lemma recentEvents_raw:
  "recentEvents (stateOf (processRawEvent env r st))
     = (if aborts r then recentEvents st
        else pushBounded MAX_EVENTS
               (recordOf env (typedEvt r) (agentAfter env (typedEvt r) st)) (recentEvents st))"
proof (cases "abortPoint r")
  case None
  then show ?thesis
    by (simp add: aborts_def processRawEvent_def Let_def processEvent_recentEvents)
next
  case (Some p)
  then show ?thesis
    by (cases p)
       (simp_all add: aborts_def processRawEvent_def Let_def split_def getOrCreateAgent_snd_fields)
qed

lemma countersOf_same:
  "knownAgents s k = knownAgents s' k \<Longrightarrow> toolCallsOf s k = toolCallsOf s' k"
  "knownAgents s k = knownAgents s' k \<Longrightarrow> tokensOf s k = tokensOf s' k"
  by (simp_all add: toolCallsOf_def tokensOf_def)

lemma countersOf_Some:
  "knownAgents s k = Some a \<Longrightarrow> toolCallsOf s k = toolCalls a"
  "knownAgents s k = Some a \<Longrightarrow> tokensOf s k = tokens a"
  by (simp_all add: toolCallsOf_def tokensOf_def)

lemma toolCalls_raw:
  "toolCallsOf (stateOf (processRawEvent env r st)) (sessionIdOf (typedEvt r))
     = (if countsCall r then roundNat (toolCallsOf st (sessionIdOf (typedEvt r)) + 1)
        else toolCallsOf st (sessionIdOf (typedEvt r)))"
proof (cases "abortPoint r")
  case None
  then have "knownAgents (stateOf (processRawEvent env r st)) (sessionIdOf (typedEvt r))
      = Some (agentAfter env (typedEvt r) st)"
    by (simp add: knownAgents_raw)
  then show ?thesis using None
    by (simp add: countersOf_Some countsCall_def toolCalls_agentAfter)
next
  case (Some p)
  show ?thesis
  proof (cases "p = BeforeAgent")
    case True
    then have "knownAgents (stateOf (processRawEvent env r st)) (sessionIdOf (typedEvt r))
      = knownAgents st (sessionIdOf (typedEvt r))"
      using Some by (simp add: knownAgents_raw)
    then show ?thesis using Some True
      by (simp add: countersOf_same [of "stateOf (processRawEvent env r st)" _ st] countsCall_def)
  next
    case False
    then have "knownAgents (stateOf (processRawEvent env r st)) (sessionIdOf (typedEvt r))
      = Some (agentAtAbort env (typedEvt r) p
            (fst (getOrCreateAgent (now env) (sessionIdOf (typedEvt r)) (hintsOf (typedEvt r)) st)))"
      using Some by (cases p) (simp_all add: knownAgents_raw)
    then show ?thesis using Some False
      by (cases p)
         (simp_all add: countersOf_Some countsCall_def touch_fields updateStatus_fields
            updateAgent_fields getOrCreateAgent_fst_fields)
  qed
qed









lemma sessionIdOf_anonymous:
  "rw_session_id r = Missing \<Longrightarrow> rw_sessionId r = Missing \<Longrightarrow>
   sessionIdOf (typedEvt r) = js ''unknown''"
  by (simp add: sessionIdOf_def typedEvt_def js_or_def js_or_str_def)

lemma rawSessionId_anonymous:
  "rw_session_id r = Missing \<Longrightarrow> rw_sessionId r = Missing \<Longrightarrow>
   rawSessionId r = Text (js ''unknown'')"
  by (simp add: rawSessionId_def orField_def)

lemma abortPoint_anonymous:
  "rw_session_id r = Missing \<Longrightarrow> rw_sessionId r = Missing \<Longrightarrow>
   abortPoint r = Some BeforeAgent \<longleftrightarrow> rw_model r = NotText"
  by (simp add: abortPoint_before rawSessionId_anonymous)

lemma sample_events:
  "rw_session_id sevenTokens = Missing" "rw_sessionId sevenTokens = Missing"
  "rw_session_id pathFive = Missing" "rw_sessionId pathFive = Missing"
  "rw_session_id modelFive = Missing" "rw_sessionId modelFive = Missing"
  "rw_session_id emptyRaw = Missing" "rw_sessionId emptyRaw = Missing"
  "rw_tokens sevenTokens = Some 7" "rw_tokens pathFive = Some 7"
  "rw_model modelFive = NotText" "rw_model emptyRaw = Missing"
  by (simp_all add: sevenTokens_def pathFive_def modelFive_def emptyRaw_def)

lemma typed_empty_norm:
  "toolNameOf emptyEvt = None" "hookEventOf emptyEvt = js ''unknown''"
  "filePathOf emptyEvt = None"
  by (simp_all add: toolNameOf_def hookEventOf_def filePathOf_def toolInputOf_def emptyInput_def
      emptyEvt_def js_or_def js_or_str_def Let_def)

lemma abortPoint_emptyRaw: "abortPoint emptyRaw = None"
  by (simp add: abortPoint_def Let_def typedEvt_emptyRaw typed_empty_norm)
     (simp add: emptyRaw_def rawSessionId_def rawFilePath_def rawInputOf_def emptyRawInput_def
        orField_def Let_def)


lemma abortPoint_pathFive: "abortPoint pathFive = Some InFileTracking"
proof -
  have t: "toolNameOf (typedEvt pathFive) = None"
    by (simp add: toolNameOf_def typedEvt_def pathFive_def emptyRaw_def js_or_def)
  have f: "rawFilePath pathFive = NotText"
    by (simp add: pathFive_def emptyRaw_def rawFilePath_def rawInputOf_def emptyRawInput_def
          orField_def Let_def)
  have m: "rw_model pathFive = Missing" "rawSessionId pathFive = Text (js ''unknown'')"
    by (simp_all add: pathFive_def emptyRaw_def rawSessionId_def orField_def)
  show ?thesis
    by (simp add: abortPoint_def Let_def t f m)
qed

lemma abortPoint_modelFive: "abortPoint modelFive = Some BeforeAgent"
  by (simp add: abortPoint_before sample_events)

lemma initial_counters:
  "toolCallsOf initialState k = 0" "tokensOf initialState k = 0"
  "storedAsNumbers initialState k"
  by (simp_all add: storedAsNumbers_def toolCallsOf_def tokensOf_def initialState_def
      roundNat_0 roundDouble_small)


text \<open>
  C10, as stated, at a concrete input: the event \<open>{"model": 5}\<close> carries no session id.
  Its run throws at \<open>evt.model.replace\<close>, before the agent is looked up: no record keyed
  \<open>"unknown"\<close> exists afterwards. The event \<open>{"tool_input": {"file_path": 5}, "tokens": 7}\<close>
  carries no session id either; its run throws in the file tracking, after the record has
  been created, and no event record is pushed.
\<close>

theorem anonymous_event_aborts:
  "rw_session_id modelFive = Missing \<and> rw_sessionId modelFive = Missing
   \<and> processRawEvent (envAt 1) modelFive initialState = Uncaught initialState
   \<and> knownAgents initialState (js ''unknown'') = None
   \<and> rw_session_id pathFive = Missing \<and> rw_sessionId pathFive = Missing
   \<and> aborts pathFive
   \<and> recentEvents (stateOf (processRawEvent (envAt 1) pathFive initialState)) = []"
proof -
  have 1: "processRawEvent (envAt 1) modelFive initialState = Uncaught initialState"
    by (simp add: processRawEvent_before abortPoint_modelFive)
  have 2: "knownAgents initialState (js ''unknown'') = None"
    by (simp add: initialState_def)
  have 3: "aborts pathFive" by (simp add: aborts_def abortPoint_pathFive)
  have 4: "recentEvents (stateOf (processRawEvent (envAt 1) pathFive initialState)) = []"
    using 3 by (simp add: recentEvents_raw initialState_def)
  from 1 2 3 4 show ?thesis by (simp add: sample_events)
qed

lemma anonymous_run:
  "\<forall>p\<in>set es. rw_session_id (snd p) = Missing \<and> rw_sessionId (snd p) = Missing \<Longrightarrow>
   (\<forall>k. k \<noteq> js ''unknown'' \<longrightarrow> knownAgents (processAllRaw es st) k = knownAgents st k)
   \<and> (js ''unknown'' \<in> dom (knownAgents (processAllRaw es st))
        \<longleftrightarrow> js ''unknown'' \<in> dom (knownAgents st) \<or> (\<exists>p\<in>set es. rw_model (snd p) \<noteq> NotText))
   \<and> colorIndex (processAllRaw es st)
       = (if js ''unknown'' \<in> dom (knownAgents st) \<or> (\<forall>p\<in>set es. rw_model (snd p) = NotText)
          then colorIndex st else colorIndex st + 1)
   \<and> (toolCallsOf st (js ''unknown'') + length es < 2 ^ 53 \<longrightarrow>
        toolCallsOf (processAllRaw es st) (js ''unknown'')
          = toolCallsOf st (js ''unknown'') + length (filter (\<lambda>p. countsCall (snd p)) es))"
proof (induction es arbitrary: st)
  case Nil
  show ?case by (simp add: processAllRaw_def)
next
  case (Cons p es)
  let ?u = "js ''unknown''"
  let ?st1 = "stateOf (processRawEvent (fst p) (snd p) st)"
  have an: "rw_session_id (snd p) = Missing" "rw_sessionId (snd p) = Missing"
    using Cons.prems by simp_all
  have sid: "sessionIdOf (typedEvt (snd p)) = ?u"
    using an by (rule sessionIdOf_anonymous)
  have before: "abortPoint (snd p) = Some BeforeAgent \<longleftrightarrow> rw_model (snd p) = NotText"
    using an by (rule abortPoint_anonymous)
  have step: "processAllRaw (p # es) st = processAllRaw es ?st1"
    by (simp add: processAllRaw_def)
  have ka: "\<forall>k. k \<noteq> ?u \<longrightarrow> knownAgents ?st1 k = knownAgents st k"
    using knownAgents_raw_other [of _ "snd p" "fst p" st] sid by simp
  have dm: "?u \<in> dom (knownAgents ?st1)
        \<longleftrightarrow> ?u \<in> dom (knownAgents st) \<or> rw_model (snd p) \<noteq> NotText"
    using dom_raw [of "snd p" "fst p" st] sid before by simp
  have ci: "colorIndex ?st1
      = (if rw_model (snd p) = NotText \<or> ?u \<in> dom (knownAgents st)
         then colorIndex st else colorIndex st + 1)"
    using colorIndex_raw [of "fst p" "snd p" st] sid before by simp
  have tc: "toolCallsOf ?st1 ?u
      = (if countsCall (snd p) then roundNat (toolCallsOf st ?u + 1) else toolCallsOf st ?u)"
    using toolCalls_raw [of "fst p" "snd p" st] sid by simp
  have ih: "(\<forall>k. k \<noteq> ?u \<longrightarrow> knownAgents (processAllRaw es ?st1) k = knownAgents ?st1 k)
   \<and> (?u \<in> dom (knownAgents (processAllRaw es ?st1))
        \<longleftrightarrow> ?u \<in> dom (knownAgents ?st1) \<or> (\<exists>p\<in>set es. rw_model (snd p) \<noteq> NotText))
   \<and> colorIndex (processAllRaw es ?st1)
       = (if ?u \<in> dom (knownAgents ?st1) \<or> (\<forall>p\<in>set es. rw_model (snd p) = NotText)
          then colorIndex ?st1 else colorIndex ?st1 + 1)
   \<and> (toolCallsOf ?st1 ?u + length es < 2 ^ 53 \<longrightarrow>
        toolCallsOf (processAllRaw es ?st1) ?u
          = toolCallsOf ?st1 ?u + length (filter (\<lambda>p. countsCall (snd p)) es))"
    using Cons.IH [of ?st1] Cons.prems by simp
  have A: "\<forall>k. k \<noteq> ?u \<longrightarrow> knownAgents (processAllRaw (p # es) st) k = knownAgents st k"
    unfolding step using ih ka by simp
  have B: "?u \<in> dom (knownAgents (processAllRaw (p # es) st))
        \<longleftrightarrow> ?u \<in> dom (knownAgents st) \<or> (\<exists>q\<in>set (p # es). rw_model (snd q) \<noteq> NotText)"
    unfolding step using ih dm by auto
  have C: "colorIndex (processAllRaw (p # es) st)
       = (if ?u \<in> dom (knownAgents st) \<or> (\<forall>q\<in>set (p # es). rw_model (snd q) = NotText)
          then colorIndex st else colorIndex st + 1)"
    unfolding step using ih dm ci by auto
  have D: "toolCallsOf st ?u + length (p # es) < 2 ^ 53 \<longrightarrow>
        toolCallsOf (processAllRaw (p # es) st) ?u
          = toolCallsOf st ?u + length (filter (\<lambda>p. countsCall (snd p)) (p # es))"
  proof
    assume b: "toolCallsOf st ?u + length (p # es) < 2 ^ 53"
    then have "toolCallsOf st ?u + 1 < 2 ^ 53" by simp
    then have r: "roundNat (toolCallsOf st ?u + 1) = toolCallsOf st ?u + 1"
      by (rule roundNat_small)
    have tc1: "toolCallsOf ?st1 ?u = (if countsCall (snd p) then toolCallsOf st ?u + 1
         else toolCallsOf st ?u)"
      using tc r by simp
    then have "toolCallsOf ?st1 ?u + length es < 2 ^ 53" using b by simp
    then have "toolCallsOf (processAllRaw es ?st1) ?u
          = toolCallsOf ?st1 ?u + length (filter (\<lambda>p. countsCall (snd p)) es)"
      using ih by blast
    then show "toolCallsOf (processAllRaw (p # es) st) ?u
          = toolCallsOf st ?u + length (filter (\<lambda>p. countsCall (snd p)) (p # es))"
      unfolding step using tc1 by simp
  qed
  from A B C D show ?case by blast
qed

text \<open>
  C10, amended: every event that carries neither \<open>session_id\<close> nor \<open>sessionId\<close> is
  attributed to the agent id \<open>"unknown"\<close>. The run of such an event throws exactly when
  its \<open>model\<close>, its file path or, on a \<open>Task\<close> pre-tool event, its task description is
  a truthy value that is no string; otherwise it completes, as \<open>processEvent\<close> on the
  event's strings. A throw on \<open>model\<close> leaves the state as it was. Over a run of such
  events in which what is thrown is swallowed, as the log watcher does, no record other
  than \<open>"unknown"\<close> changes; the record \<open>"unknown"\<close> exists afterwards exactly when it
  existed before or some event has passed the \<open>model\<close> check; the colour index has moved
  by one exactly when that record was created; and the \<open>toolCalls\<close> counter of the record
  has grown by the number of events that reach the increment.
\<close>

theorem anonymous_events_share_unknown_agent:
  "\<forall>p\<in>set es. rw_session_id (snd p) = Missing \<and> rw_sessionId (snd p) = Missing \<Longrightarrow>
   (\<forall>p\<in>set es. sessionIdOf (typedEvt (snd p)) = js ''unknown'')
   \<and> (\<forall>p\<in>set es. aborts (snd p) \<longleftrightarrow>
          rw_model (snd p) = NotText \<or> rawFilePath (snd p) = NotText
          \<or> (toolNameOf (typedEvt (snd p)) = Some (js ''Task'')
              \<and> isPreTool (hookEventOf (typedEvt (snd p))) \<and> rawTaskDesc (snd p) = NotText))
   \<and> (\<forall>p\<in>set es. \<forall>s. \<not> aborts (snd p) \<longrightarrow>
          processRawEvent (fst p) (snd p) s
            = Completed (processEvent (fst p) (typedEvt (snd p)) s))
   \<and> (\<forall>p\<in>set es. \<forall>s. rw_model (snd p) = NotText \<longrightarrow>
          processRawEvent (fst p) (snd p) s = Uncaught s)
   \<and> (\<forall>k. k \<noteq> js ''unknown'' \<longrightarrow> knownAgents (processAllRaw es st) k = knownAgents st k)
   \<and> (js ''unknown'' \<in> dom (knownAgents (processAllRaw es st))
        \<longleftrightarrow> js ''unknown'' \<in> dom (knownAgents st) \<or> (\<exists>p\<in>set es. rw_model (snd p) \<noteq> NotText))
   \<and> colorIndex (processAllRaw es st)
       = (if js ''unknown'' \<in> dom (knownAgents st) \<or> (\<forall>p\<in>set es. rw_model (snd p) = NotText)
          then colorIndex st else colorIndex st + 1)
   \<and> (toolCallsOf st (js ''unknown'') + length es < 2 ^ 53 \<longrightarrow>
        toolCallsOf (processAllRaw es st) (js ''unknown'')
          = toolCallsOf st (js ''unknown'') + length (filter (\<lambda>p. countsCall (snd p)) es))"
proof -
  assume an: "\<forall>p\<in>set es. rw_session_id (snd p) = Missing \<and> rw_sessionId (snd p) = Missing"
  have 1: "\<forall>p\<in>set es. sessionIdOf (typedEvt (snd p)) = js ''unknown''"
    using an by (simp add: sessionIdOf_anonymous)
  have 2: "\<forall>p\<in>set es. aborts (snd p) \<longleftrightarrow>
          rw_model (snd p) = NotText \<or> rawFilePath (snd p) = NotText
          \<or> (toolNameOf (typedEvt (snd p)) = Some (js ''Task'')
              \<and> isPreTool (hookEventOf (typedEvt (snd p))) \<and> rawTaskDesc (snd p) = NotText)"
    using an by (simp add: aborts_iff rawSessionId_anonymous)
  have 3: "\<forall>p\<in>set es. \<forall>s. \<not> aborts (snd p) \<longrightarrow>
          processRawEvent (fst p) (snd p) s
            = Completed (processEvent (fst p) (typedEvt (snd p)) s)"
    by (simp add: processRawEvent_completes)
  have 4: "\<forall>p\<in>set es. \<forall>s. rw_model (snd p) = NotText \<longrightarrow>
          processRawEvent (fst p) (snd p) s = Uncaught s"
    by (simp add: processRawEvent_before abortPoint_before)
  show ?thesis
    using 1 2 3 4 anonymous_run [OF an, of st] by blast
qed

theorem anonymous_events_share_unknown_agent_witness:
  "js ''unknown'' \<in> dom (knownAgents
      (processAllRaw [(envAt 1, modelFive), (envAt 2, emptyRaw), (envAt 3, pathFive)] initialState))
   \<and> colorIndex
       (processAllRaw [(envAt 1, modelFive), (envAt 2, emptyRaw), (envAt 3, pathFive)] initialState)
       = 1
   \<and> toolCallsOf
       (processAllRaw [(envAt 1, modelFive), (envAt 2, emptyRaw), (envAt 3, pathFive)] initialState)
       (js ''unknown'') = 2"
proof -
  let ?es = "[(envAt 1, modelFive), (envAt 2, emptyRaw), (envAt 3, pathFive)]"
  have an: "\<forall>p\<in>set ?es. rw_session_id (snd p) = Missing \<and> rw_sessionId (snd p) = Missing"
    by (simp add: sample_events)
  have m: "\<exists>p\<in>set ?es. rw_model (snd p) \<noteq> NotText"
    "\<not> (\<forall>p\<in>set ?es. rw_model (snd p) = NotText)"
    by (simp_all add: sample_events)
  have i: "js ''unknown'' \<notin> dom (knownAgents initialState)" "colorIndex initialState = 0"
    by (simp_all add: initialState_def)
  have c: "\<not> countsCall modelFive" "countsCall emptyRaw" "countsCall pathFive"
    by (simp_all add: countsCall_def abortPoint_modelFive abortPoint_emptyRaw abortPoint_pathFive)
  have b: "toolCallsOf initialState (js ''unknown'') + length ?es < 2 ^ 53"
    by (simp add: initial_counters)
  note r = anonymous_events_share_unknown_agent [OF an, of initialState]
  have 1: "js ''unknown'' \<in> dom (knownAgents (processAllRaw ?es initialState))"
    using r m(1) by blast
  have 2: "colorIndex (processAllRaw ?es initialState) = colorIndex initialState + 1"
    using r m(2) i(1) by simp
  have 3: "toolCallsOf (processAllRaw ?es initialState) (js ''unknown'')
      = toolCallsOf initialState (js ''unknown'') + length (filter (\<lambda>p. countsCall (snd p)) ?es)"
    using r b by blast
  from 1 2 3 show ?thesis by (simp add: i c initial_counters)
qed

section \<open>Properties of the ring buffers\<close>

lemma length_pushBounded:
  "length (pushBounded cap x xs) = (if length xs < cap then length xs + 1 else length xs)"
  by (simp add: pushBounded_def Let_def)

lemma pushBounded_le: "length xs \<le> cap \<Longrightarrow> length (pushBounded cap x xs) \<le> cap"
  by (simp add: length_pushBounded)





lemma processEvent_recentMessages_length:
  "length (recentMessages (processEvent env e st))
     = (case messageOf env e of
          None \<Rightarrow> length (recentMessages st)
        | Some m \<Rightarrow> length (pushBounded MAX_MESSAGES m (recentMessages st)))"
  by (cases "messageOf env e")
     (simp_all add: processEvent_unfold Let_def matchPending_length_messages midState_fields
        length_pushBounded)

lemma processEvent_capacity: "withinCapacity st \<Longrightarrow> withinCapacity (processEvent env e st)"
  by (cases "messageOf env e")
     (simp_all add: withinCapacity_def processEvent_recentEvents processEvent_recentMessages_length
        length_pushBounded)



lemma processRawEvent_capacity:
  "withinCapacity st \<Longrightarrow> withinCapacity (stateOf (processRawEvent env r st))"
proof (cases "abortPoint r")
  case None
  assume "withinCapacity st"
  then show ?thesis using None by (simp add: processRawEvent_def Let_def processEvent_capacity)
next
  case (Some p)
  assume "withinCapacity st"
  then show ?thesis
    using Some
    by (cases p)
       (simp_all add: processRawEvent_def Let_def split_def withinCapacity_def
          getOrCreateAgent_snd_fields)
qed

lemma processLines_capacity:
  "withinCapacity st \<Longrightarrow> withinCapacity (processLines h i ls st)"
  by (induction ls arbitrary: i st)
     (auto simp: processRawEvent_capacity split: option.splits parsed.splits)

lemma streamEnded_capacity:
  "withinCapacity st \<Longrightarrow> withinCapacity (streamEnded h rd st)"
proof -
  assume "withinCapacity st"
  then have "withinCapacity (st\<lparr>eventsFileSize := rd_size rd\<rparr>)"
    by (simp add: withinCapacity_def)
  then show ?thesis
    by (simp add: streamEnded_def Let_def processLines_capacity)
qed

lemma eventsFileNotified_capacity:
  "withinCapacity st \<Longrightarrow> withinCapacity (fst (eventsFileNotified h st))"
  by (simp add: eventsFileNotified_def withinCapacity_def split: option.splits)




section \<open>Properties of the event log watcher\<close>

lemma splitOn_no_sep: "w \<in> set (splitOn sep s) \<Longrightarrow> sep \<notin> set w"
proof (induction s arbitrary: w)
  case Nil
  then show ?case by simp
next
  case (Cons c cs)
  show ?case
  proof (cases "c = sep")
    case True
    then show ?thesis using Cons by auto
  next
    case False
    obtain v vs where sp: "splitOn sep cs = v # vs"
      by (cases "splitOn sep cs") (cases cs; simp split: if_splits list.splits)+
    have "sep \<notin> set v" using Cons.IH [of v] sp by simp
    then show ?thesis using Cons False sp by auto
  qed
qed

lemma linesOf_lines: "l \<in> set (linesOf b) \<Longrightarrow> l \<noteq> [] \<and> newline \<notin> set l"
  by (auto simp: linesOf_def dest: splitOn_no_sep)

lemma eventsFileChanged_no_growth:
  "statSize h = Some newSize \<Longrightarrow> newSize \<le> eventsFileSize st \<Longrightarrow>
   eventsFileChanged h st = st\<lparr>eventsFileSize := newSize\<rparr>"
  by (simp add: eventsFileChanged_def eventsFileNotified_def)

lemma processLines_eventsFileSize:
  "eventsFileSize (processLines h i ls st) = eventsFileSize st"
  by (induction ls arbitrary: i st)
     (simp_all add: eventsFileSize_raw split: option.splits parsed.splits)

lemma streamEnded_offset: "eventsFileSize (streamEnded h rd st) = rd_size rd"
  by (simp add: streamEnded_def Let_def processLines_eventsFileSize)

lemma processLines_skips_malformed:
  "jsonParse h line = None \<Longrightarrow> processLines h i (line # rest) st = processLines h (Suc i) rest st"
  by simp

lemma processLines_swallows_throw:
  "jsonParse h line = Some (JsonValue r) \<Longrightarrow> processRawEvent (lineEnv h i) r st = Uncaught st1 \<Longrightarrow>
   processLines h i (line # rest) st = processLines h (Suc i) rest st1"
  by simp

lemma settledLog_skips_malformed_line:
  "linesOf (utf8Decode settledLog (bytesRead settledLog \<lparr>rd_start = 0, rd_size = 10\<rparr>))
     = [js ''{}'', js ''no!'', js ''{}'']
   \<and> jsonParse settledLog (js ''no!'') = None
   \<and> eventsFileChanged settledLog initialState
     = stateOf (processRawEvent (envAt 2) emptyRaw
         (stateOf (processRawEvent (envAt 0) emptyRaw (initialState\<lparr>eventsFileSize := 10\<rparr>))))"
proof -
  have n: "eventsFileNotified settledLog initialState
      = (initialState, Some \<lparr>rd_start = 0, rd_size = 10\<rparr>)"
    by (simp add: eventsFileNotified_def settledLog_def initialState_def)
  have l: "linesOf (utf8Decode settledLog (bytesRead settledLog \<lparr>rd_start = 0, rd_size = 10\<rparr>))
     = [js ''{}'', js ''no!'', js ''{}'']"
    by (simp add: bytesRead_def settledLog_def linesOf_def newline_def js_def)
  have p: "jsonParse settledLog (js ''no!'') = None"
    "jsonParse settledLog (js ''{}'') = Some (JsonValue emptyRaw)"
    "lineEnv settledLog 0 = envAt 0" "lineEnv settledLog (Suc (Suc 0)) = envAt 2"
    by (simp_all add: settledLog_def js_def)
  have "eventsFileChanged settledLog initialState
     = processLines settledLog 0 [js ''{}'', js ''no!'', js ''{}'']
         (initialState\<lparr>eventsFileSize := 10\<rparr>)"
    by (simp add: eventsFileChanged_def n streamEnded_def Let_def l del: processLines.simps)
  also have "\<dots> = stateOf (processRawEvent (envAt 2) emptyRaw
         (stateOf (processRawEvent (envAt 0) emptyRaw (initialState\<lparr>eventsFileSize := 10\<rparr>))))"
    by (simp add: p del: stateOf.simps)
  finally show ?thesis using l p(1) by simp
qed

lemma bytesRead_settled:
  "length (fileAtRead h) = rd_size rd \<Longrightarrow>
   bytesRead h rd = byteRange (rd_start rd) (rd_size rd) (fileAtRead h)"
  by (simp add: bytesRead_def byteRange_def)

lemma emptyRaw_run:
  "stateOf (processRawEvent env emptyRaw st) = processEvent env emptyEvt st"
  by (simp add: processRawEvent_def Let_def abortPoint_emptyRaw typedEvt_emptyRaw)

lemma emptyRaw_events:
  "length (recentEvents st) < MAX_EVENTS \<Longrightarrow>
   length (recentEvents (stateOf (processRawEvent env emptyRaw st))) = Suc (length (recentEvents st))"
  by (simp add: emptyRaw_run processEvent_recentEvents length_pushBounded)

lemma growingLog_lines:
  "linesOf (utf8Decode growingLog [123, 125, 10, 123, 125, 10]) = [js ''{}'', js ''{}'']"
  "linesOf (utf8Decode growingLog [123, 125, 10]) = [js ''{}'']"
  "jsonParse growingLog (js ''{}'') = Some (JsonValue emptyRaw)"
  by (simp_all add: growingLog_def linesOf_def newline_def js_def)

lemma growingLog_first:
  "eventsFileChanged growingLog initialState
     = stateOf (processRawEvent (envAt 1) emptyRaw
         (stateOf (processRawEvent (envAt 0) emptyRaw (initialState\<lparr>eventsFileSize := 3\<rparr>))))"
proof -
  have n: "eventsFileNotified growingLog initialState
      = (initialState, Some \<lparr>rd_start = 0, rd_size = 3\<rparr>)"
    by (simp add: eventsFileNotified_def growingLog_def initialState_def)
  have b: "bytesRead growingLog \<lparr>rd_start = 0, rd_size = 3\<rparr> = [123, 125, 10, 123, 125, 10]"
    by (simp add: bytesRead_def growingLog_def)
  have e: "lineEnv growingLog 0 = envAt 0" "lineEnv growingLog (Suc 0) = envAt 1"
    by (simp_all add: growingLog_def)
  show ?thesis
    by (simp add: eventsFileChanged_def n streamEnded_def Let_def b growingLog_lines e
        del: stateOf.simps)
qed

lemma caughtUpLog_fields:
  "statSize caughtUpLog = Some 6" "fileAtRead caughtUpLog = [123, 125, 10, 123, 125, 10]"
  "utf8Decode caughtUpLog = utf8Decode growingLog" "jsonParse caughtUpLog = jsonParse growingLog"
  "lineEnv caughtUpLog 0 = envAt 0" "lineEnv caughtUpLog (Suc 0) = envAt 1"
  by (simp_all add: caughtUpLog_def growingLog_def)

lemma caughtUpLog_stream:
  "eventsFileSize st = 3 \<Longrightarrow>
   eventsFileChanged caughtUpLog st
     = stateOf (processRawEvent (envAt 0) emptyRaw (st\<lparr>eventsFileSize := 6\<rparr>))"
proof -
  assume s: "eventsFileSize st = 3"
  have n: "eventsFileNotified caughtUpLog st = (st, Some \<lparr>rd_start = 3, rd_size = 6\<rparr>)"
    by (simp add: eventsFileNotified_def caughtUpLog_fields s)
  have b: "bytesRead caughtUpLog \<lparr>rd_start = 3, rd_size = 6\<rparr> = [123, 125, 10]"
    by (simp add: bytesRead_def caughtUpLog_fields)
  show ?thesis
    by (simp add: eventsFileChanged_def n streamEnded_def Let_def b caughtUpLog_fields
        growingLog_lines del: stateOf.simps)
qed

lemma caughtUpLog_whole:
  "streamEnded caughtUpLog \<lparr>rd_start = 0, rd_size = 6\<rparr> st
     = stateOf (processRawEvent (envAt 1) emptyRaw
         (stateOf (processRawEvent (envAt 0) emptyRaw (st\<lparr>eventsFileSize := 6\<rparr>))))"
proof -
  have b: "bytesRead caughtUpLog \<lparr>rd_start = 0, rd_size = 6\<rparr> = [123, 125, 10, 123, 125, 10]"
    by (simp add: bytesRead_def caughtUpLog_fields)
  show ?thesis
    by (simp add: streamEnded_def Let_def b caughtUpLog_fields growingLog_lines
        del: stateOf.simps)
qed

text \<open>
  C8 at a concrete input: the log holds two lines of 3 bytes, \<open>{}\<close> and \<open>{}\<close>. At the
  first notification the stored offset is 0 and \<open>statSync\<close> reports 3 bytes, and the second
  line is in the file by the time the stream reads it. The stream has no end bound: it
  reads 6 bytes, not the range from 0 to 3, both lines are processed, and the stored
  offset becomes 3. The notification for the second line then finds 3 < 6 and reads the
  bytes from 3 to 6: the second line is processed again. Three events come out of a log of
  two lines.
\<close>

theorem log_overshoot_processed_twice:
  "eventsFileSize initialState = 0
   \<and> statSize growingLog = Some 3
   \<and> fileAtRead growingLog = [123, 125, 10, 123, 125, 10]
   \<and> eventsFileNotified growingLog initialState
       = (initialState, Some \<lparr>rd_start = 0, rd_size = 3\<rparr>)
   \<and> byteRange 0 3 (fileAtRead growingLog) = [123, 125, 10]
   \<and> bytesRead growingLog \<lparr>rd_start = 0, rd_size = 3\<rparr> = [123, 125, 10, 123, 125, 10]
   \<and> length (recentEvents (eventsFileChanged growingLog initialState)) = 2
   \<and> eventsFileSize (eventsFileChanged growingLog initialState) = 3
   \<and> statSize caughtUpLog = Some 6
   \<and> fileAtRead caughtUpLog = fileAtRead growingLog
   \<and> bytesRead caughtUpLog \<lparr>rd_start = 3, rd_size = 6\<rparr> = [123, 125, 10]
   \<and> length (recentEvents
         (eventsFileChanged caughtUpLog (eventsFileChanged growingLog initialState))) = 3
   \<and> eventsFileSize
         (eventsFileChanged caughtUpLog (eventsFileChanged growingLog initialState)) = 6"
proof -
  let ?s1 = "eventsFileChanged growingLog initialState"
  have g: "statSize growingLog = Some 3" "fileAtRead growingLog = [123, 125, 10, 123, 125, 10]"
    by (simp_all add: growingLog_def)
  have i: "eventsFileSize initialState = 0" "recentEvents initialState = []"
    by (simp_all add: initialState_def)
  have n: "eventsFileNotified growingLog initialState
      = (initialState, Some \<lparr>rd_start = 0, rd_size = 3\<rparr>)"
    by (simp add: eventsFileNotified_def g i)
  have rg: "byteRange 0 3 (fileAtRead growingLog) = [123, 125, 10]"
    by (simp add: byteRange_def g)
  have b1: "bytesRead growingLog \<lparr>rd_start = 0, rd_size = 3\<rparr> = [123, 125, 10, 123, 125, 10]"
    by (simp add: bytesRead_def g)
  have b2: "bytesRead caughtUpLog \<lparr>rd_start = 3, rd_size = 6\<rparr> = [123, 125, 10]"
    by (simp add: bytesRead_def caughtUpLog_fields)
  have l1: "length (recentEvents ?s1) = 2"
    by (simp add: growingLog_first emptyRaw_events i MAX_EVENTS_def del: stateOf.simps)
  have z1: "eventsFileSize ?s1 = 3"
    by (simp add: growingLog_first eventsFileSize_raw del: stateOf.simps)
  have s2: "eventsFileChanged caughtUpLog ?s1
      = stateOf (processRawEvent (envAt 0) emptyRaw (?s1\<lparr>eventsFileSize := 6\<rparr>))"
    using z1 by (rule caughtUpLog_stream)
  have l2: "length (recentEvents (eventsFileChanged caughtUpLog ?s1)) = 3"
    by (simp add: s2 emptyRaw_events l1 MAX_EVENTS_def del: stateOf.simps)
  have z2: "eventsFileSize (eventsFileChanged caughtUpLog ?s1) = 6"
    by (simp add: s2 eventsFileSize_raw del: stateOf.simps)
  show ?thesis
    using n rg b1 b2 l1 z1 l2 z2 by (simp add: g i caughtUpLog_fields)
qed

text \<open>
  The stored offset is written when a stream ends, not when it is opened. Two
  notifications for the same growth that both arrive before the first stream ends open
  two streams from offset 0, and each line is processed once per stream: four events come
  out of a log of two lines.
\<close>

lemma overlapping_reads_process_lines_twice:
  "eventsFileNotified caughtUpLog initialState
     = (initialState, Some \<lparr>rd_start = 0, rd_size = 6\<rparr>)
   \<and> length (recentEvents (streamEnded caughtUpLog \<lparr>rd_start = 0, rd_size = 6\<rparr> initialState)) = 2
   \<and> length (recentEvents
        (streamEnded caughtUpLog \<lparr>rd_start = 0, rd_size = 6\<rparr>
          (streamEnded caughtUpLog \<lparr>rd_start = 0, rd_size = 6\<rparr> initialState))) = 4"
proof -
  have i: "eventsFileSize initialState = 0" "recentEvents initialState = []"
    by (simp_all add: initialState_def)
  have n: "eventsFileNotified caughtUpLog initialState
      = (initialState, Some \<lparr>rd_start = 0, rd_size = 6\<rparr>)"
    by (simp add: eventsFileNotified_def caughtUpLog_fields i)
  have l1: "length (recentEvents (streamEnded caughtUpLog \<lparr>rd_start = 0, rd_size = 6\<rparr> initialState)) = 2"
    by (simp add: caughtUpLog_whole emptyRaw_events i MAX_EVENTS_def del: stateOf.simps)
  have l2: "length (recentEvents
        (streamEnded caughtUpLog \<lparr>rd_start = 0, rd_size = 6\<rparr>
          (streamEnded caughtUpLog \<lparr>rd_start = 0, rd_size = 6\<rparr> initialState))) = 4"
    by (simp add: caughtUpLog_whole [of "streamEnded caughtUpLog _ _"] emptyRaw_events l1
        MAX_EVENTS_def del: stateOf.simps)
  from n l1 l2 show ?thesis by simp
qed

end
